(* ===== verification/Prelude.thy ===== *)
theory Prelude
  imports Complex_Main "HOL-Library.Word" "HOL-Library.Code_Target_Numeral"
begin

text \<open>
  Shared vocabulary of the development. A JavaScript string is a sequence of
  UTF-16 code units, modelled as a list of \<open>16 word\<close>; a byte is an \<open>8 word\<close>.
  \<open>js\<close> injects an ASCII literal of Isabelle (\<open>''abc''\<close>) into code units, so the
  literals of \<^verbatim>\<open>src/checkout_web/script.js\<close> are written \<open>js ''Cliente''\<close>.
  The exceptions the script can raise or catch are the constructors of
  \<open>js_error\<close>; a computation that may throw returns \<open>js_error + 'a\<close>.
  The named collection \<open>cu_simps\<close> gathers the rewrite rules that evaluate
  code-unit literals, and \<open>jstr_simps\<close> the list facts the components share.
\<close>

type_synonym cu = "16 word"
type_synonym jstr = "cu list"
type_synonym byte = "8 word"

named_theorems cu_simps "evaluation of code-unit literals"
named_theorems jstr_simps "list facts shared by the string components"

definition js :: "string \<Rightarrow> jstr" where
  "js s = map (\<lambda>c. of_nat (of_char c)) s"

text \<open>The exceptions of the JavaScript runtime that the script can meet.\<close>

datatype js_error =
    TypeError
  | SyntaxError
  | InvalidCharacterError

text \<open>Sequencing of computations that may throw, as JavaScript evaluates them.\<close>

definition throw_bind :: "js_error + 'a \<Rightarrow> ('a \<Rightarrow> js_error + 'b) \<Rightarrow> js_error + 'b" where
  "throw_bind r f = (case r of Inl e \<Rightarrow> Inl e | Inr a \<Rightarrow> f a)"

text \<open>Replacing every occurrence of one element by another: on code units, what
  \<^verbatim>\<open>String.prototype.replace\<close> with a global one-character regular expression
  does; on bytes, the \<^verbatim>\<open>+\<close> to space step of the form-urlencoded parser.\<close>

definition replace_all :: "'a \<Rightarrow> 'a \<Rightarrow> 'a list \<Rightarrow> 'a list" where
  "replace_all a b s = map (\<lambda>c. if c = a then b else c) s"

subsection \<open>Shared lemmas\<close>

lemma js_Nil [simp, cu_simps]: "js [] = []"
  by (simp add: js_def)

lemma js_Cons [cu_simps]: "js (c # s) = of_nat (of_char c) # js s"
  by (simp add: js_def)

lemma js_append [simp, jstr_simps]: "js (s @ t) = js s @ js t"
  by (simp add: js_def)

lemma length_js [simp, jstr_simps]: "length (js s) = length s"
  by (simp add: js_def)

lemma of_char_less_65536 [simp]: "of_char c < (65536::nat)"
  using nat_of_char_less_256 [of c] by linarith

lemma unat_of_char_cu [simp]: "unat (of_nat (of_char c) :: cu) = of_char c"
  by (simp add: unat_of_nat)

lemma of_char_cu_inj:
  "(of_nat (of_char a) :: cu) = of_nat (of_char b) \<longleftrightarrow> a = b"
proof
  assume "(of_nat (of_char a) :: cu) = of_nat (of_char b)"
  then have "unat (of_nat (of_char a) :: cu) = unat (of_nat (of_char b) :: cu)" by simp
  then have "(of_char a :: nat) = of_char b" by simp
  then show "a = b" by simp
qed simp

lemma js_inj [simp, jstr_simps]: "js s = js t \<longleftrightarrow> s = t"
proof (induction s arbitrary: t)
  case Nil
  then show ?case by (cases t) (auto simp: js_def)
next
  case (Cons a s)
  then show ?case by (cases t) (auto simp: js_Cons of_char_cu_inj)
qed

lemma throw_bind_Inl [simp]: "throw_bind (Inl e) f = Inl e"
  by (simp add: throw_bind_def)

lemma throw_bind_Inr [simp]: "throw_bind (Inr a) f = f a"
  by (simp add: throw_bind_def)

lemma replace_all_Nil [simp, jstr_simps]: "replace_all a b [] = []"
  by (simp add: replace_all_def)

lemma replace_all_Cons [jstr_simps]:
  "replace_all a b (c # s) = (if c = a then b else c) # replace_all a b s"
  by (simp add: replace_all_def)

lemma length_replace_all [simp, jstr_simps]: "length (replace_all a b s) = length s"
  by (simp add: replace_all_def)

lemma replace_all_append [jstr_simps]:
  "replace_all a b (s @ t) = replace_all a b s @ replace_all a b t"
  by (simp add: replace_all_def)

lemma replace_all_id [jstr_simps]: "a \<notin> set s \<Longrightarrow> replace_all a b s = s"
  by (induction s) (auto simp: replace_all_def)

lemma replace_all_concat [jstr_simps]:
  "replace_all a b (concat xss) = concat (map (replace_all a b) xss)"
  by (induction xss) (simp_all add: replace_all_append)

lemma unat_byte_of_nat: "x < 256 \<Longrightarrow> unat (of_nat x :: byte) = x"
  by (simp add: unat_of_nat)

lemma mod_add_multiple: "(b::nat) mod c = 0 \<Longrightarrow> q < c \<Longrightarrow> (b + q) mod c = q"
  by (subst mod_add_left_eq [symmetric]) simp

lemmas div_bounds = div_less_iff_less_mult less_eq_div_iff_mult_less_eq

lemma unat_ucast_byte [simp]: "unat (ucast (b::byte) :: cu) = unat b"
proof -
  have "unat b < 256" using unsigned_less [of b] by simp
  then have "unat b < 2 ^ 16" by simp
  then show ?thesis by (simp add: unsigned_ucast_eq take_bit_nat_eq_self)
qed

end
