(* ===== verification/Base64.thy ===== *)
theory Base64
  imports Prelude
begin

text \<open>
  The cart payload of the page (query parameter \<^verbatim>\<open>items\<close>) is base64url text.
  Line 27 of \<^verbatim>\<open>src/checkout_web/script.js\<close> rewrites it to standard base64
  (\<open>urlsafe_to_std\<close>) and decodes it with the browser's \<^verbatim>\<open>atob\<close>
  (\<open>atob\<close>), which runs the WHATWG forgiving-base64 decode: strip ASCII
  whitespace, strip one or two trailing \<^verbatim>\<open>=\<close> from a length divisible by four,
  reject a length of remainder one and any character outside the alphabet, then
  feed 6-bit values into a 24-bit buffer (\<open>b64_loop\<close>). The result is a
  binary string: one code unit per byte, not UTF-8 decoded.
  \<open>b64_encode\<close> and \<open>b64url_encode\<close> are the producer's side of the payload
  (standard and URL-safe base64 with padding); they are not code of the page
  and serve the round-trip theorem.
\<close>

subsection \<open>Line 27: base64url to base64\<close>

definition urlsafe_to_std :: "jstr \<Rightarrow> jstr" where
  "urlsafe_to_std s = replace_all 95 47 (replace_all 45 43 s)"

subsection \<open>atob: the forgiving-base64 decode\<close>

definition ascii_whitespace :: "cu \<Rightarrow> bool" where
  "ascii_whitespace c \<longleftrightarrow>
     unat c = 9 \<or> unat c = 10 \<or> unat c = 12 \<or> unat c = 13 \<or> unat c = 32"

definition b64_value :: "cu \<Rightarrow> nat option" where
  "b64_value c =
     (let n = unat c in
      if 65 \<le> n \<and> n \<le> 90 then Some (n - 65)
      else if 97 \<le> n \<and> n \<le> 122 then Some (n - 71)
      else if 48 \<le> n \<and> n \<le> 57 then Some (n + 4)
      else if n = 43 then Some 62
      else if n = 47 then Some 63
      else None)"

definition strip_padding :: "jstr \<Rightarrow> jstr" where
  "strip_padding d =
     (if length d mod 4 = 0 then
        (if drop (length d - 2) d = [61, 61] then take (length d - 2) d
         else if drop (length d - 1) d = [61] then take (length d - 1) d
         else d)
      else d)"

text \<open>The decoding loop: \<open>buf\<close> holds \<open>bits\<close> bits; at 24 bits three bytes are
  emitted big-endian and the buffer is emptied; at the end 12 bits give one byte
  (4 bits dropped) and 18 bits give two (2 bits dropped).\<close>

fun b64_loop :: "nat \<Rightarrow> nat \<Rightarrow> nat list \<Rightarrow> byte list" where
  "b64_loop buf bits [] =
     (if bits = 12 then [of_nat (buf div 16)]
      else if bits = 18 then [of_nat (buf div 4 div 256), of_nat (buf div 4 mod 256)]
      else [])"
| "b64_loop buf bits (v # vs) =
     (let buf' = buf * 64 + v; bits' = bits + 6 in
      if bits' = 24
      then [of_nat (buf' div 65536), of_nat (buf' div 256 mod 256), of_nat (buf' mod 256)]
           @ b64_loop 0 0 vs
      else b64_loop buf' bits' vs)"

definition forgiving_base64_decode :: "jstr \<Rightarrow> byte list option" where
  "forgiving_base64_decode data =
     (let d = strip_padding (filter (\<lambda>c. \<not> ascii_whitespace c) data) in
      if length d mod 4 = 1 then None
      else (case those (map b64_value d) of
              None \<Rightarrow> None
            | Some vs \<Rightarrow> Some (b64_loop 0 0 vs)))"

definition binary_string :: "byte list \<Rightarrow> jstr" where
  "binary_string bs = map ucast bs"

definition atob :: "jstr \<Rightarrow> js_error + jstr" where
  "atob data =
     (case forgiving_base64_decode data of
        None \<Rightarrow> Inl InvalidCharacterError
      | Some bs \<Rightarrow> Inr (binary_string bs))"

subsection \<open>The decoder by groups of four characters\<close>

fun decode_quads :: "nat list \<Rightarrow> byte list" where
  "decode_quads (a # b # c # d # vs) =
     (let n = ((a * 64 + b) * 64 + c) * 64 + d in
      [of_nat (n div 65536), of_nat (n div 256 mod 256), of_nat (n mod 256)])
     @ decode_quads vs"
| "decode_quads [a, b, c] =
     (let n = ((a * 64 + b) * 64 + c) div 4 in [of_nat (n div 256), of_nat (n mod 256)])"
| "decode_quads [a, b] = [of_nat ((a * 64 + b) div 16)]"
| "decode_quads _ = []"

text \<open>The decoding of RFC 4648 by groups of four characters, on the same text:
  the reference the buffer loop is compared with.\<close>

definition decode_rfc4648 :: "jstr \<Rightarrow> byte list option" where
  "decode_rfc4648 data =
     (let d = strip_padding (filter (\<lambda>c. \<not> ascii_whitespace c) data) in
      if length d mod 4 = 1 then None else map_option decode_quads (those (map b64_value d)))"

subsection \<open>The producer's encoder\<close>

fun b64_sextets :: "byte list \<Rightarrow> nat list" where
  "b64_sextets (x # y # z # bs) =
     (let n = unat x * 65536 + unat y * 256 + unat z in
      [n div 262144, n div 4096 mod 64, n div 64 mod 64, n mod 64])
     @ b64_sextets bs"
| "b64_sextets [x, y] =
     (let n = (unat x * 256 + unat y) * 4 in [n div 4096, n div 64 mod 64, n mod 64])"
| "b64_sextets [x] = (let n = unat x * 16 in [n div 64, n mod 64])"
| "b64_sextets [] = []"

definition b64_code :: "nat \<Rightarrow> nat" where
  "b64_code v =
     (if v < 26 then 65 + v else if v < 52 then 71 + v
      else if v < 62 then v - 4 else if v = 62 then 43 else 47)"

definition b64_digit :: "nat \<Rightarrow> cu" where
  "b64_digit v = of_nat (b64_code v)"

definition b64_encode :: "byte list \<Rightarrow> jstr" where
  "b64_encode bs =
     map b64_digit (b64_sextets bs) @ replicate ((3 - length bs mod 3) mod 3) 61"

definition b64url_encode :: "byte list \<Rightarrow> jstr" where
  "b64url_encode bs = replace_all 47 95 (replace_all 43 45 (b64_encode bs))"

text \<open>The bytes of a text given as an Isabelle string (whose characters are bytes).\<close>

definition bytes_of :: "string \<Rightarrow> byte list" where
  "bytes_of s = map (\<lambda>c. of_nat (of_char c)) s"

subsection \<open>Arithmetic of the 24-bit group\<close>

lemma recombine_sextet:
  fixes n :: nat
  shows "n div (k * 64) * 64 + n div k mod 64 = n div k"
  using div_mult_mod_eq [of "n div k" 64] by (simp add: div_mult2_eq)

lemma recombine24:
  fixes n :: nat
  shows "((n div 262144 * 64 + n div 4096 mod 64) * 64 + n div 64 mod 64) * 64 + n mod 64 = n"
  using recombine_sextet [of n 4096] recombine_sextet [of n 64] recombine_sextet [of n 1]
  by simp

lemma recombine18:
  fixes n :: nat
  shows "(n div 4096 * 64 + n div 64 mod 64) * 64 + n mod 64 = n"
  using recombine_sextet [of n 64] recombine_sextet [of n 1] by simp

lemma bytes_of_24:
  fixes x y z :: nat
  assumes "x < 256" "y < 256" "z < 256"
  shows "(x * 65536 + y * 256 + z) div 65536 = x"
    and "(x * 65536 + y * 256 + z) div 256 mod 256 = y"
    and "(x * 65536 + y * 256 + z) mod 256 = z"
proof -
  show "(x * 65536 + y * 256 + z) div 65536 = x" using assms by simp
  have d: "(x * 65536 + y * 256 + z) div 256 = x * 256 + y"
    using assms by (intro div_nat_eqI) simp_all
  show "(x * 65536 + y * 256 + z) div 256 mod 256 = y" unfolding d using assms by simp
  show "(x * 65536 + y * 256 + z) mod 256 = z"
    using assms by (intro mod_nat_eqI) (simp_all add: dvd_add)
qed

lemma unat_byte_less [simp]: "unat (x :: byte) < 256"
  using unsigned_less [of x] by simp

lemma of_nat_unat_byte [simp]: "(of_nat (unat x) :: byte) = x"
  by simp

lemma sextet_hi_bound:
  fixes x y z :: nat
  assumes "x < 256" "y < 256" "z < 256"
  shows "(x * 65536 + y * 256 + z) div 262144 < 64"
  using assms by (intro less_mult_imp_div_less) simp

lemma b64_loop_eq_decode_quads: "b64_loop 0 0 vs = decode_quads vs"
  by (induction vs rule: decode_quads.induct) (simp_all add: Let_def)

lemma byte_group_bounds:
  "unat (x :: byte) * 65536 + unat (y :: byte) * 256 + unat (z :: byte) < 16777216"
  "1024 * unat (x :: byte) + unat (y :: byte) * 4 < 262144"
  using unat_byte_less [of x] unat_byte_less [of y] unat_byte_less [of z] by linarith+

lemma b64_sextets_bound: "v \<in> set (b64_sextets bs) \<Longrightarrow> v < 64"
  by (induction bs rule: b64_sextets.induct) (auto simp: Let_def byte_group_bounds intro!: less_mult_imp_div_less)

lemma decode_quads_group:
  "decode_quads ([n div 262144, n div 4096 mod 64, n div 64 mod 64, n mod 64] @ vs) =
   [of_nat (n div 65536), of_nat (n div 256 mod 256), of_nat (n mod 256)] @ decode_quads vs"
  by (simp only: append_Cons append_Nil decode_quads.simps(1) Let_def recombine24)

lemma decode_quads_sextets: "decode_quads (b64_sextets bs) = bs"
proof (induction bs rule: b64_sextets.induct)
  case (1 x y z bs)
  then show ?case
    by (simp only: b64_sextets.simps Let_def decode_quads_group bytes_of_24 unat_byte_less
        of_nat_unat_byte) simp
next
  case (2 x y)
  have d: "((unat x * 256 + unat y) * 4) div 4 = unat x * 256 + unat y" by simp
  show ?case
    by (simp only: b64_sextets.simps Let_def decode_quads.simps recombine18 d) simp
next
  case (3 x)
  have d: "(unat x * 16 div 64 * 64 + unat x * 16 mod 64) div 16 = unat x"
    by (simp only: div_mult_mod_eq)
  show ?case
    by (simp only: b64_sextets.simps Let_def decode_quads.simps d of_nat_unat_byte)
qed simp

subsection \<open>The alphabet\<close>

lemma b64_code_less: "b64_code v < 123"
  unfolding b64_code_def by auto

lemma unat_b64_digit [simp]: "unat (b64_digit v) = b64_code v"
proof -
  have "b64_code v < 65536" using b64_code_less [of v] by linarith
  then show ?thesis by (simp add: b64_digit_def unat_of_nat)
qed

lemma cu_neq_by_unat: "unat (c :: cu) \<noteq> unat d \<Longrightarrow> c \<noteq> d"
  by auto

lemma b64_digit_not_special:
  "b64_digit v \<noteq> 61" "b64_digit v \<noteq> 45" "b64_digit v \<noteq> 95"
  "\<not> ascii_whitespace (b64_digit v)"
  by (auto intro!: cu_neq_by_unat simp: b64_code_def ascii_whitespace_def split: if_splits)

lemma b64_value_digit: "v < 64 \<Longrightarrow> b64_value (b64_digit v) = Some v"
  by (auto simp: b64_value_def b64_code_def Let_def)

lemma those_b64_values:
  "(\<forall>v \<in> set vs. v < 64) \<Longrightarrow> those (map b64_value (map b64_digit vs)) = Some vs"
  by (induction vs) (auto simp: b64_value_digit)

lemma length_b64_sextets:
  "length (b64_sextets bs) =
     4 * (length bs div 3) + (if length bs mod 3 = 0 then 0 else length bs mod 3 + 1)"
  by (induction bs rule: b64_sextets.induct) (simp_all add: Let_def)

lemma strip_padding_pad:
  assumes "61 \<notin> set S" "p \<le> 2" "(length S + p) mod 4 = 0"
  shows "strip_padding (S @ replicate p 61) = S"
proof -
  consider "p = 0" | "p = 1" | "p = 2" using assms(2) by linarith
  then show ?thesis
  proof cases
    case 1
    show ?thesis
    proof (cases "S = []")
      case False
      then have l: "last S \<noteq> 61" using assms(1) last_in_set by metis
      have "last (drop (length S - 2) S) = last S" "last (drop (length S - 1) S) = last S"
        using False by (simp_all add: last_drop)
      then have "drop (length S - 2) S \<noteq> [61, 61]" "drop (length S - 1) S \<noteq> [61]"
        using l by auto
      then show ?thesis using 1 assms(3) by (simp add: strip_padding_def)
    qed (use 1 in \<open>simp add: strip_padding_def\<close>)
  next
    case 2
    then have ne: "S \<noteq> []" using assms(3) by auto
    then obtain S' c where S: "S = S' @ [c]" by (metis append_butlast_last_id)
    then have "c \<noteq> 61" using assms(1) by auto
    then show ?thesis using 2 assms(3) S by (simp add: strip_padding_def)
  next
    case 3
    then show ?thesis using assms(3) by (simp add: strip_padding_def numeral_2_eq_2)
  qed
qed

lemma urlsafe_to_std_b64url: "urlsafe_to_std (b64url_encode bs) = b64_encode bs"
proof -
  have "\<forall>c \<in> set (b64_encode bs). c \<noteq> 45 \<and> c \<noteq> 95"
    by (auto simp: b64_encode_def b64_digit_not_special)
  then show ?thesis
    by (simp add: urlsafe_to_std_def b64url_encode_def replace_all_def map_idI)
qed

lemma forgiving_decode_b64_encode:
  "forgiving_base64_decode (b64_encode bs) = Some bs"
proof -
  define S where "S = map b64_digit (b64_sextets bs)"
  define p where "p = (3 - length bs mod 3) mod 3"
  have ws1: "filter (\<lambda>c. \<not> ascii_whitespace c) S = S"
    unfolding S_def by (induction "b64_sextets bs") (simp_all add: b64_digit_not_special)
  have ws: "filter (\<lambda>c. \<not> ascii_whitespace c) (b64_encode bs) = b64_encode bs"
    using ws1 by (simp add: b64_encode_def S_def ascii_whitespace_def)
  have len: "(length S + p) mod 4 = 0"
    by (auto simp: S_def p_def length_b64_sextets)
  have strip: "strip_padding (b64_encode bs) = S"
  proof -
    have "61 \<notin> set S" by (auto simp: S_def b64_digit_not_special(1) [symmetric])
    moreover have "p \<le> 2" by (simp add: p_def)
    ultimately have "strip_padding (S @ replicate p 61) = S"
      using len by (rule strip_padding_pad)
    then show ?thesis by (simp add: S_def p_def b64_encode_def)
  qed
  have not1: "length S mod 4 \<noteq> 1"
    by (auto simp: S_def length_b64_sextets)
  have th: "those (map b64_value S) = Some (b64_sextets bs)"
    unfolding S_def by (rule those_b64_values) (auto dest: b64_sextets_bound)
  show ?thesis
    using ws strip not1 th
    by (simp add: forgiving_base64_decode_def b64_loop_eq_decode_quads decode_quads_sextets)
qed

lemma set_strip_padding:
  assumes "x \<in> set d" "x \<noteq> 61"
  shows "x \<in> set (strip_padding d)"
proof -
  have keep: "x \<in> set (take k d)" if "set (drop k d) \<subseteq> {61}" for k
  proof -
    have "x \<in> set (take k d) \<union> set (drop k d)"
      using assms(1) by (metis set_append append_take_drop_id)
    then show ?thesis using that assms(2) by auto
  qed
  show ?thesis using assms(1) by (simp add: strip_padding_def keep)
qed

lemma those_map_None: "x \<in> set xs \<Longrightarrow> f x = None \<Longrightarrow> those (map f xs) = None"
  by (induction xs) (auto split: option.splits)

subsection \<open>Properties of atob\<close>

text \<open>C5: decoding what the producer encodes gives back the bytes, one code unit
  per byte.\<close>

theorem atob_b64url_roundtrip:
  "atob (urlsafe_to_std (b64url_encode bs)) = Inr (binary_string bs)"
  by (simp add: atob_def urlsafe_to_std_b64url forgiving_decode_b64_encode)

text \<open>C18: a character that is neither ASCII whitespace, nor \<^verbatim>\<open>=\<close>, nor in the
  base64 alphabet makes atob throw InvalidCharacterError.\<close>

theorem atob_rejects_foreign_char:
  assumes "c \<in> set s" "\<not> ascii_whitespace c" "c \<noteq> 61" "b64_value c = None"
  shows "atob s = Inl InvalidCharacterError"
proof -
  let ?d = "strip_padding (filter (\<lambda>c. \<not> ascii_whitespace c) s)"
  have "c \<in> set ?d" using assms(1-3) by (intro set_strip_padding) simp_all
  then have "those (map b64_value ?d) = None" using assms(4) by (rule those_map_None)
  then show ?thesis by (simp add: atob_def forgiving_base64_decode_def Let_def)
qed

theorem atob_rejects_foreign_char_witness:
  "atob (js ''ab!c'') = Inl InvalidCharacterError"
proof -
  have h1: "(33::cu) \<in> set (js ''ab!c'')" by (simp add: js_def)
  have h2: "\<not> ascii_whitespace 33" by (simp add: ascii_whitespace_def)
  have h3: "(33::cu) \<noteq> 61" by simp
  have h4: "b64_value 33 = None" by (simp add: b64_value_def)
  show ?thesis by (rule atob_rejects_foreign_char [OF h1 h2 h3 h4])
qed

text \<open>C19: after whitespace is removed, a length of remainder one modulo four makes
  atob throw, whatever the characters.\<close>

theorem atob_rejects_length:
  assumes "length (filter (\<lambda>c. \<not> ascii_whitespace c) s) mod 4 = 1"
  shows "atob s = Inl InvalidCharacterError"
  using assms by (simp add: atob_def forgiving_base64_decode_def strip_padding_def)

theorem atob_rejects_length_witness:
  "length (filter (\<lambda>c. \<not> ascii_whitespace c) (js ''YWJjZ'')) mod 4 = 1 \<and>
   atob (js ''YWJjZ'') = Inl InvalidCharacterError"
proof -
  have h: "length (filter (\<lambda>c. \<not> ascii_whitespace c) (js ''YWJjZ'')) mod 4 = 1"
    by (simp add: js_def ascii_whitespace_def)
  show ?thesis using h atob_rejects_length [OF h] by simp
qed


lemma length_decode_quads: "4 * length (decode_quads vs) \<le> 3 * length vs"
  by (induction vs rule: decode_quads.induct) (simp_all add: Let_def)

lemma length_strip_padding: "length (strip_padding d) \<le> length d"
  by (simp add: strip_padding_def)

lemma length_those: "those xs = Some ys \<Longrightarrow> length ys = length xs"
  by (induction xs arbitrary: ys) (auto split: option.splits)

text \<open>C32: the 24-bit buffer loop of the forgiving-base64 decode computes exactly
  the RFC 4648 decoding by groups of four characters, on every input, errors
  included.\<close>

theorem forgiving_decode_eq_rfc4648: "forgiving_base64_decode data = decode_rfc4648 data"
  by (simp add: forgiving_base64_decode_def decode_rfc4648_def Let_def b64_loop_eq_decode_quads
      split: option.splits)

text \<open>C33: what atob returns is a binary string: every code unit is below 256, and
  there are at most three code units for every four characters of the input.\<close>

theorem atob_output_bounds:
  assumes "atob s = Inr t"
  shows "(\<forall>c \<in> set t. unat c < 256) \<and> 4 * length t \<le> 3 * length s"
proof -
  let ?d = "strip_padding (filter (\<lambda>c. \<not> ascii_whitespace c) s)"
  obtain vs where vs: "those (map b64_value ?d) = Some vs" and t: "t = binary_string (decode_quads vs)"
    using assms by (auto simp: atob_def forgiving_base64_decode_def Let_def b64_loop_eq_decode_quads
        split: option.splits if_splits)
  have a: "length vs = length ?d" using length_those [OF vs] by simp
  have "length vs \<le> length s"
    using a length_strip_padding [of "filter (\<lambda>c. \<not> ascii_whitespace c) s"]
      length_filter_le [of "\<lambda>c. \<not> ascii_whitespace c" s] by linarith
  then have "4 * length t \<le> 3 * length s"
    using length_decode_quads [of vs] by (simp add: t binary_string_def)
  moreover have "\<forall>c \<in> set t. unat c < 256"
    using unsigned_less by (auto simp: t binary_string_def)
  ultimately show ?thesis by simp
qed

theorem atob_output_bounds_witness:
  "list_all (\<lambda>c. unat c < 256) (binary_string [0xC3, 0xB1])
   \<and> 4 * length (binary_string [0xC3, 0xB1]) \<le> 3 * length (js ''w7E='')"
proof -
  have h: "atob (js ''w7E='') = Inr (binary_string [0xC3, 0xB1])" by code_simp
  show ?thesis unfolding list_all_iff by (rule atob_output_bounds [OF h])
qed

end
