(* ===== verification/JsNumber.thy ===== *)
theory JsNumber
  imports Prelude
begin

text \<open>
  JavaScript Number values as the script meets them: \<open>NaN\<close>, the two infinities
  and finite values. A finite value is kept exactly, as a decimal \<open>m \<cdot> 10\<^sup>e\<close>
  (\<open>Fin m e\<close>): every number the page handles comes from a decimal literal (the
  \<^verbatim>\<open>amount\<close> parameter, the cart's JSON) or from a product of two such, so it is a
  finite decimal. Rounding to binary64, overflow of huge literals to Infinity and
  the sign of zero are not modelled (see the header of \<open>Spec2Isabelle\<close>).
  The operations are those of the script: the product \<^verbatim>\<open>item.unit_price *
  item.quantity\<close> (\<open>num_mult\<close>), the truthiness test of \<^verbatim>\<open>parseFloat(..) || 0\<close>
  (\<open>num_truthy\<close>) and \<^verbatim>\<open>Number::toString\<close> of ECMA-262 (\<open>num_to_string\<close>),
  which template literals apply to \<^verbatim>\<open>item.quantity\<close>.
\<close>

datatype jsnum =
    NaN
  | Inf bool
  | Fin int int

subsection \<open>Decimal values\<close>

function norm_dec :: "int \<Rightarrow> int \<Rightarrow> int \<times> int" where
  "norm_dec m e =
     (if m = 0 then (0, 0)
      else if m mod 10 = 0 then norm_dec (m div 10) (e + 1)
      else (m, e))"
  by pat_completeness auto
termination
  by (relation "measure (\<lambda>(m, e). nat \<bar>m\<bar>)") auto

declare norm_dec.simps [simp del]

definition mk_num :: "int \<Rightarrow> int \<Rightarrow> jsnum" where
  "mk_num m e = (case norm_dec m e of (m', e') \<Rightarrow> Fin m' e')"

definition dec_val :: "int \<Rightarrow> int \<Rightarrow> rat" where
  "dec_val m e = of_int m * 10 powi e"

definition normalized :: "int \<Rightarrow> int \<Rightarrow> bool" where
  "normalized m e \<longleftrightarrow> (if m = 0 then e = 0 else \<not> 10 dvd m)"

subsection \<open>Operations of the script\<close>

fun num_mult :: "jsnum \<Rightarrow> jsnum \<Rightarrow> jsnum" where
  "num_mult NaN y = NaN"
| "num_mult x NaN = NaN"
| "num_mult (Inf a) (Inf b) = Inf (a = b)"
| "num_mult (Inf a) (Fin n f) = (if n = 0 then NaN else Inf (a = (0 < n)))"
| "num_mult (Fin m e) (Inf b) = (if m = 0 then NaN else Inf ((0 < m) = b))"
| "num_mult (Fin m e) (Fin n f) = mk_num (m * n) (e + f)"

fun num_truthy :: "jsnum \<Rightarrow> bool" where
  "num_truthy NaN = False"
| "num_truthy (Inf b) = True"
| "num_truthy (Fin m e) = (m \<noteq> 0)"

subsection \<open>Decimal digits\<close>

definition is_digit :: "cu \<Rightarrow> bool" where
  "is_digit c \<longleftrightarrow> 48 \<le> unat c \<and> unat c \<le> 57"

definition digits_nat :: "jstr \<Rightarrow> nat" where
  "digits_nat ds = foldl (\<lambda>a c. 10 * a + (unat c - 48)) 0 ds"

subsection \<open>Number::toString\<close>

fun nat_digits :: "nat \<Rightarrow> nat list" where
  "nat_digits n = (if n < 10 then [n] else nat_digits (n div 10) @ [n mod 10])"

declare nat_digits.simps [simp del]

definition digit_char :: "nat \<Rightarrow> cu" where
  "digit_char d = of_nat (48 + d)"

definition nat_to_js :: "nat \<Rightarrow> jstr" where
  "nat_to_js n = map digit_char (nat_digits n)"

text \<open>Steps 5 to 12 of ECMA-262 Number::toString for a positive value
  \<open>s \<cdot> 10\<^sup>n\<^sup>-\<^sup>k\<close>, where \<open>s\<close> has \<open>k\<close> digits and no trailing zero.\<close>

definition pos_to_string :: "nat \<Rightarrow> int \<Rightarrow> jstr" where
  "pos_to_string s e =
     (let ds = nat_to_js s; k = int (length ds); n = k + e in
      if k \<le> n \<and> n \<le> 21 then ds @ replicate (nat (n - k)) 48
      else if 0 < n \<and> n \<le> 21 then take (nat n) ds @ [46] @ drop (nat n) ds
      else if - 6 < n \<and> n \<le> 0 then [48, 46] @ replicate (nat (- n)) 48 @ ds
      else
        (let x = n - 1;
             ex = [101, if x < 0 then 45 else 43] @ nat_to_js (nat \<bar>x\<bar>) in
         if k = 1 then ds @ ex else take 1 ds @ [46] @ drop 1 ds @ ex))"

fun num_to_string :: "jsnum \<Rightarrow> jstr" where
  "num_to_string NaN = js ''NaN''"
| "num_to_string (Inf b) = (if b then js ''Infinity'' else js ''-Infinity'')"
| "num_to_string (Fin m e) =
     (case norm_dec m e of (m', e') \<Rightarrow>
        if m' = 0 then js ''0''
        else if m' < 0 then 45 # pos_to_string (nat (- m')) e'
        else pos_to_string (nat m') e')"

subsection \<open>Digit lemmas\<close>

lemma nat_digits_less: "d \<in> set (nat_digits n) \<Longrightarrow> d < 10"
  by (induction n rule: nat_digits.induct) (subst (asm) nat_digits.simps, auto split: if_splits)

lemma nat_digits_ne [simp]: "nat_digits n \<noteq> []"
  by (subst nat_digits.simps) simp

lemma nat_digits_hd: "0 < n \<Longrightarrow> hd (nat_digits n) \<noteq> 0"
proof (induction n rule: nat_digits.induct)
  case (1 n)
  show ?case
  proof (cases "n < 10")
    case True
    with "1.prems" show ?thesis by (subst nat_digits.simps) simp
  next
    case False
    then have "0 < n div 10" by simp
    with "1.IH" False show ?thesis by (subst nat_digits.simps) simp
  qed
qed

lemma foldl_nat_digits: "foldl (\<lambda>a d. 10 * a + d) 0 (nat_digits n) = n"
proof (induction n rule: nat_digits.induct)
  case (1 n)
  show ?case
  proof (cases "n < 10")
    case True
    then show ?thesis by (subst nat_digits.simps) simp
  next
    case False
    with "1.IH" show ?thesis by (subst nat_digits.simps) simp
  qed
qed

lemma unat_digit_char [simp]: "d < 10 \<Longrightarrow> unat (digit_char d) = 48 + d"
  unfolding digit_char_def by (simp only: unat_of_nat) simp

lemma is_digit_digit_char: "d < 10 \<Longrightarrow> is_digit (digit_char d)"
  by (simp add: is_digit_def)

lemma nat_to_js_digits: "c \<in> set (nat_to_js n) \<Longrightarrow> is_digit c"
  by (auto simp: nat_to_js_def is_digit_digit_char dest: nat_digits_less)

lemma nat_to_js_ne [simp]: "nat_to_js n \<noteq> []"
  by (simp add: nat_to_js_def)

lemma foldl_digits_map:
  "\<forall>d \<in> set ds. d < 10 \<Longrightarrow>
   foldl (\<lambda>a c. 10 * a + (unat c - 48)) a (map digit_char ds) = foldl (\<lambda>a d. 10 * a + d) a ds"
  by (induction ds arbitrary: a) simp_all

lemma digits_nat_nat_to_js [simp]: "digits_nat (nat_to_js n) = n"
  using foldl_digits_map [of "nat_digits n" 0] nat_digits_less [of _ n]
  by (simp add: digits_nat_def nat_to_js_def foldl_nat_digits)

lemma nat_to_js_0: "nat_to_js 0 = [48]"
  by (simp add: nat_to_js_def nat_digits.simps digit_char_def)

lemma nat_digits_mult10: "0 < n \<Longrightarrow> nat_digits (n * 10) = nat_digits n @ [0]"
  by (subst nat_digits.simps) simp

lemma nat_to_js_mult100: "0 < n \<Longrightarrow> nat_to_js (n * 100) = nat_to_js n @ [48, 48]"
proof -
  assume n: "0 < n"
  have "nat_digits (n * 100) = nat_digits n @ [0, 0]"
    using nat_digits_mult10 [of "n * 10"] nat_digits_mult10 [OF n] n by (simp add: mult.commute)
  then show ?thesis by (simp add: nat_to_js_def digit_char_def)
qed

lemma nat_to_js_hd: "0 < n \<Longrightarrow> hd (nat_to_js n) \<noteq> 48"
proof -
  assume "0 < n"
  then have "hd (nat_digits n) \<noteq> 0" "hd (nat_digits n) < 10"
    using nat_digits_hd nat_digits_less [of "hd (nat_digits n)" n] by auto
  then have "unat (digit_char (hd (nat_digits n))) \<noteq> 48" by simp
  then show ?thesis by (auto simp: nat_to_js_def hd_map)
qed

lemma foldl_digits_shift:
  "foldl (\<lambda>a c. 10 * a + (unat c - 48)) a ys = a * 10 ^ length ys + foldl (\<lambda>a c. 10 * a + (unat c - 48)) 0 ys"
proof (induction ys arbitrary: a)
  case (Cons y ys)
  show ?case using Cons [of "10 * a + (unat y - 48)"] Cons [of "unat y - 48"]
    by (simp add: add_mult_distrib)
qed simp

lemma digits_nat_append: "digits_nat (xs @ ys) = digits_nat xs * 10 ^ length ys + digits_nat ys"
  unfolding digits_nat_def foldl_append by (rule foldl_digits_shift)

lemma digits_nat_zeros [simp]: "digits_nat (replicate j 48) = 0"
  by (induction j) (simp_all add: digits_nat_def)

lemma digits_nat_zero_Cons [simp]: "digits_nat (48 # xs) = digits_nat xs"
  using digits_nat_append [of "[48]" xs] by (simp add: digits_nat_def)

lemma is_digit_not [simp]: "\<not> is_digit 44" "\<not> is_digit 46" "\<not> is_digit 101" "\<not> is_digit 45" "\<not> is_digit 43"
  by (simp_all add: is_digit_def)

lemma is_digit_48 [simp]: "is_digit 48"
  by (simp add: is_digit_def)

subsection \<open>Normal form\<close>

lemma norm_dec_id: "normalized m e \<Longrightarrow> norm_dec m e = (m, e)"
  by (subst norm_dec.simps) (auto simp: normalized_def dvd_eq_mod_eq_0)

lemma mk_num_normalized: "normalized m e \<Longrightarrow> mk_num m e = Fin m e"
  by (simp add: mk_num_def norm_dec_id)

lemma norm_dec_normalized: "norm_dec m e = (m', e') \<Longrightarrow> normalized m' e'"
proof (induction m e rule: norm_dec.induct)
  case (1 m e)
  show ?case
  proof (cases "m = 0 \<or> m mod 10 \<noteq> 0")
    case True
    with "1.prems" show ?thesis
      by (subst (asm) norm_dec.simps) (auto simp: normalized_def dvd_eq_mod_eq_0 split: if_splits)
  next
    case False
    with "1.prems" "1.IH" show ?thesis by (subst (asm) norm_dec.simps) auto
  qed
qed

subsection \<open>The normal form keeps the value\<close>

lemma dec_val_shift: "dec_val (m * 10) e = dec_val m (e + 1)"
  by (simp add: dec_val_def power_int_add)

lemma dec_val_mult: "dec_val (m * n) (e + f) = dec_val m e * dec_val n f"
  by (simp add: dec_val_def power_int_add)

lemma norm_dec_scale:
  "norm_dec m e = (m', e') \<Longrightarrow> (m \<noteq> 0 \<longrightarrow> e \<le> e') \<and> m = m' * 10 ^ nat (e' - e)"
proof (induction m e rule: norm_dec.induct)
  case (1 m e)
  show ?case
  proof (cases "m = 0 \<or> m mod 10 \<noteq> 0")
    case True
    with "1.prems" show ?thesis by (subst (asm) norm_dec.simps) (auto split: if_splits)
  next
    case False
    then have m: "m = m div 10 * 10" using div_mult_mod_eq [of m 10] by simp
    from False "1.prems" have "norm_dec (m div 10) (e + 1) = (m', e')" by (subst (asm) norm_dec.simps) simp
    moreover have "m div 10 \<noteq> 0" using m False by (metis mult_zero_left)
    ultimately have "e + 1 \<le> e' \<and> m div 10 = m' * 10 ^ nat (e' - (e + 1))"
      using False "1.IH" by simp
    moreover from this have "nat (e' - e) = Suc (nat (e' - (e + 1)))" by linarith
    ultimately show ?thesis using m by (simp add: algebra_simps)
  qed
qed

lemma powi_ten_le: "e \<le> e' \<Longrightarrow> (10::rat) powi e' = 10 ^ nat (e' - e) * 10 powi e"
proof -
  assume "e \<le> e'"
  then have "(10::rat) powi e' = 10 powi (int (nat (e' - e)) + e)" by simp
  also have "\<dots> = 10 powi int (nat (e' - e)) * 10 powi e" by (rule power_int_add) simp
  also have "\<dots> = 10 ^ nat (e' - e) * 10 powi e" by (simp only: power_int_of_nat)
  finally show ?thesis .
qed

lemma norm_dec_value: "norm_dec m e = (m', e') \<Longrightarrow> dec_val m' e' = dec_val m e"
  by (drule norm_dec_scale) (auto simp: dec_val_def powi_ten_le)

lemma mk_num_nat:
  "\<exists>m e. mk_num (int n) 0 = Fin m e \<and> 0 \<le> m \<and> 0 \<le> e \<and> n = nat m * 10 ^ nat e"
proof -
  obtain m e where d: "norm_dec (int n) 0 = (m, e)" by fastforce
  from norm_dec_scale [OF d] have s: "(n \<noteq> 0 \<longrightarrow> 0 \<le> e) \<and> int n = m * 10 ^ nat e" by simp
  show ?thesis
  proof (cases "n = 0")
    case True
    then show ?thesis by (simp add: mk_num_def norm_dec.simps)
  next
    case False
    with s have "0 \<le> e" "int n = m * 10 ^ nat e" by simp_all
    moreover have "0 \<le> m"
    proof -
      have "0 \<le> m * 10 ^ nat e" "(0::int) < 10 ^ nat e" using \<open>int n = m * 10 ^ nat e\<close> by simp_all
      then show ?thesis by (simp add: zero_le_mult_iff)
    qed
    moreover from \<open>int n = m * 10 ^ nat e\<close> have "n = nat (m * 10 ^ nat e)" by (metis nat_int)
    with \<open>0 \<le> m\<close> have "n = nat m * 10 ^ nat e" by (simp add: nat_mult_distrib nat_power_eq)
    ultimately show ?thesis using d by (simp add: mk_num_def)
  qed
qed

subsection \<open>The product is exact\<close>


end
