(* ===== verification/Json.thy ===== *)
theory Json
  imports JsNumber
begin

text \<open>
  \<^verbatim>\<open>JSON.parse\<close> as line 28 of \<^verbatim>\<open>src/checkout_web/script.js\<close> calls it on the
  decoded cart text. The grammar is ECMA-404: whitespace is tab, line feed,
  carriage return and space; a string is a quoted sequence of code units other
  than \<^verbatim>\<open>"\<close>, \<^verbatim>\<open>\\\<close> and controls below U+0020, with the escapes
  \<^verbatim>\<open>\" \\ \/ \b \f \n \r \t \uXXXX\<close>; a number is
  \<^verbatim>\<open>-? (0 | [1-9][0-9]* ) (. [0-9]+)? ([eE] [+-]? [0-9]+)?\<close>.
  An object keeps its members in source order; a duplicated key is looked up to its
  last value, as \<^verbatim>\<open>CreateDataProperty\<close> overwrites it (\<open>obj_get\<close>).
  The recursive descent (\<open>parse_value\<close>, \<open>parse_elems\<close>, \<open>parse_members\<close>)
  carries fuel; \<open>json_parse\<close> starts it with one unit more than the text's
  length, and \<open>parse_value_fuel_enough\<close> shows that this never runs out, so
  \<^verbatim>\<open>SyntaxError\<close> is exactly the rejection of the grammar.
  \<open>json_print\<close> is the producer's serialisation (not code of the page) for the
  round-trip theorem.
\<close>

datatype json =
    JNull
  | JBool bool
  | JNum jsnum
  | JStr jstr
  | JArr "json list"
  | JObj "(jstr \<times> json) list"

datatype 'a parse =
    Fail
  | NoFuel
  | Done 'a jstr

subsection \<open>Lexical level\<close>

definition json_ws :: "cu \<Rightarrow> bool" where
  "json_ws c \<longleftrightarrow> c = 9 \<or> c = 10 \<or> c = 13 \<or> c = 32"

fun skip_ws :: "jstr \<Rightarrow> jstr" where
  "skip_ws [] = []"
| "skip_ws (c # cs) = (if json_ws c then skip_ws cs else c # cs)"

definition hex_val :: "cu \<Rightarrow> nat option" where
  "hex_val c =
     (let n = unat c in
      if 48 \<le> n \<and> n \<le> 57 then Some (n - 48)
      else if 65 \<le> n \<and> n \<le> 70 then Some (n - 55)
      else if 97 \<le> n \<and> n \<le> 102 then Some (n - 87)
      else None)"

definition hex4 :: "cu \<Rightarrow> cu \<Rightarrow> cu \<Rightarrow> cu \<Rightarrow> cu option" where
  "hex4 a b c d =
     (case (hex_val a, hex_val b, hex_val c, hex_val d) of
        (Some w, Some x, Some y, Some z) \<Rightarrow> Some (of_nat (((w * 16 + x) * 16 + y) * 16 + z))
      | _ \<Rightarrow> None)"

text \<open>The body of a string after its opening quote; \<open>acc\<close> holds the code units read,
  last first.\<close>

definition simple_escape :: "cu \<Rightarrow> cu option" where
  "simple_escape d =
     (if d = 34 \<or> d = 92 \<or> d = 47 then Some d
      else if d = 98 then Some 8
      else if d = 102 then Some 12
      else if d = 110 then Some 10
      else if d = 114 then Some 13
      else if d = 116 then Some 9
      else None)"

fun lex_str :: "jstr \<Rightarrow> jstr \<Rightarrow> (jstr \<times> jstr) option" where
  "lex_str acc [] = None"
| "lex_str acc (c # cs) =
     (if c = 34 then Some (rev acc, cs)
      else if c = 92 then
        (case cs of
           [] \<Rightarrow> None
         | d # ds \<Rightarrow>
             (case simple_escape d of
                Some u \<Rightarrow> lex_str (u # acc) ds
              | None \<Rightarrow>
                  if d = 117 then
                    (case ds of
                       a # b # x # y # rest \<Rightarrow>
                         (case hex4 a b x y of
                            None \<Rightarrow> None
                          | Some u \<Rightarrow> lex_str (u # acc) rest)
                     | _ \<Rightarrow> None)
                  else None))
      else if unat c < 32 then None
      else lex_str (c # acc) cs)"

definition frac_part :: "jstr \<Rightarrow> (jstr \<times> jstr) option" where
  "frac_part s =
     (case s of
        c # cs \<Rightarrow>
          if c = 46 then
            (let ds = takeWhile is_digit cs in
             if ds = [] then None else Some (ds, dropWhile is_digit cs))
          else Some ([], s)
      | [] \<Rightarrow> Some ([], []))"

definition exp_part :: "jstr \<Rightarrow> (int \<times> jstr) option" where
  "exp_part s =
     (case s of
        c # cs \<Rightarrow>
          if c = 101 \<or> c = 69 then
            (let (sg, r) = (case cs of
                              d # ds \<Rightarrow> if d = 43 then (1, ds) else if d = 45 then (- 1, ds) else (1, cs)
                            | [] \<Rightarrow> (1, cs));
                 ds = takeWhile is_digit r in
             if ds = [] then None else Some (sg * int (digits_nat ds), dropWhile is_digit r))
          else Some (0, s)
      | [] \<Rightarrow> Some (0, []))"

definition lex_number :: "jstr \<Rightarrow> (jsnum \<times> jstr) option" where
  "lex_number s =
     (let (neg, s1) = (case s of c # cs \<Rightarrow> if c = 45 then (True, cs) else (False, s) | [] \<Rightarrow> (False, s)) in
      case s1 of
        [] \<Rightarrow> None
      | c # cs \<Rightarrow>
          if \<not> is_digit c then None
          else
            (let ip = (if c = 48 then [c] else c # takeWhile is_digit cs);
                 s2 = (if c = 48 then cs else dropWhile is_digit cs) in
             case frac_part s2 of
               None \<Rightarrow> None
             | Some (fp, s3) \<Rightarrow>
                 (case exp_part s3 of
                    None \<Rightarrow> None
                  | Some (ex, s4) \<Rightarrow>
                      (let m = int (digits_nat (ip @ fp)) in
                       Some (mk_num (if neg then - m else m) (ex - int (length fp)), s4)))))"

subsection \<open>The recursive descent\<close>

function parse_value :: "nat \<Rightarrow> jstr \<Rightarrow> json parse"
  and parse_elems :: "nat \<Rightarrow> json list \<Rightarrow> jstr \<Rightarrow> json parse"
  and parse_members :: "nat \<Rightarrow> (jstr \<times> json) list \<Rightarrow> jstr \<Rightarrow> json parse" where
  "parse_value 0 s = NoFuel"
| "parse_value (Suc n) s =
     (case skip_ws s of
        [] \<Rightarrow> Fail
      | c # cs \<Rightarrow>
          if c = 123 then
            (case skip_ws cs of
               d # ds \<Rightarrow> if d = 125 then Done (JObj []) ds else parse_members n [] (d # ds)
             | [] \<Rightarrow> Fail)
          else if c = 91 then
            (case skip_ws cs of
               d # ds \<Rightarrow> if d = 93 then Done (JArr []) ds else parse_elems n [] (d # ds)
             | [] \<Rightarrow> Fail)
          else if c = 34 then
            (case lex_str [] cs of None \<Rightarrow> Fail | Some (str, r) \<Rightarrow> Done (JStr str) r)
          else if c = 116 then
            (if take 3 cs = js ''rue'' then Done (JBool True) (drop 3 cs) else Fail)
          else if c = 102 then
            (if take 4 cs = js ''alse'' then Done (JBool False) (drop 4 cs) else Fail)
          else if c = 110 then
            (if take 3 cs = js ''ull'' then Done JNull (drop 3 cs) else Fail)
          else if c = 45 \<or> is_digit c then
            (case lex_number (c # cs) of None \<Rightarrow> Fail | Some (x, r) \<Rightarrow> Done (JNum x) r)
          else Fail)"
| "parse_elems 0 acc s = NoFuel"
| "parse_elems (Suc n) acc s =
     (case parse_value (Suc n) s of
        Done v r \<Rightarrow>
          (case skip_ws r of
             c # cs \<Rightarrow>
               if c = 44 then parse_elems n (acc @ [v]) cs
               else if c = 93 then Done (JArr (acc @ [v])) cs
               else Fail
           | [] \<Rightarrow> Fail)
      | Fail \<Rightarrow> Fail
      | NoFuel \<Rightarrow> NoFuel)"
| "parse_members 0 acc s = NoFuel"
| "parse_members (Suc n) acc s =
     (case skip_ws s of
        c # cs \<Rightarrow>
          if c = 34 then
            (case lex_str [] cs of
               None \<Rightarrow> Fail
             | Some (k, r) \<Rightarrow>
                 (case skip_ws r of
                    d # ds \<Rightarrow>
                      if d = 58 then
                        (case parse_value (Suc n) ds of
                           Done v r2 \<Rightarrow>
                             (case skip_ws r2 of
                                e # es \<Rightarrow>
                                  if e = 44 then parse_members n (acc @ [(k, v)]) es
                                  else if e = 125 then Done (JObj (acc @ [(k, v)])) es
                                  else Fail
                              | [] \<Rightarrow> Fail)
                         | Fail \<Rightarrow> Fail
                         | NoFuel \<Rightarrow> NoFuel)
                      else Fail
                  | [] \<Rightarrow> Fail))
          else Fail
      | [] \<Rightarrow> Fail)"
  by pat_completeness auto
termination
  by (relation "measure (\<lambda>x. case x of
        Inl (n, s) \<Rightarrow> 2 * n
      | Inr (Inl (n, acc, s)) \<Rightarrow> 2 * n + 1
      | Inr (Inr (n, acc, s)) \<Rightarrow> 2 * n + 1)") auto

definition json_parse :: "jstr \<Rightarrow> js_error + json" where
  "json_parse s =
     (case parse_value (Suc (length s)) s of
        Done v r \<Rightarrow> if skip_ws r = [] then Inr v else Inl SyntaxError
      | _ \<Rightarrow> Inl SyntaxError)"

definition obj_get :: "(jstr \<times> json) list \<Rightarrow> jstr \<Rightarrow> json option" where
  "obj_get kvs k = map_of (rev kvs) k"

subsection \<open>The producer's serialisation\<close>

definition hex_digit :: "nat \<Rightarrow> cu" where
  "hex_digit d = (if d < 10 then of_nat (48 + d) else of_nat (87 + d))"

definition quote_cu :: "cu \<Rightarrow> jstr" where
  "quote_cu c =
     (if c = 34 then [92, 34]
      else if c = 92 then [92, 92]
      else if unat c < 32 then [92, 117, 48, 48, hex_digit (unat c div 16), hex_digit (unat c mod 16)]
      else [c])"

definition quote_str :: "jstr \<Rightarrow> jstr" where
  "quote_str s = [34] @ concat (map quote_cu s) @ [34]"

definition int_to_js :: "int \<Rightarrow> jstr" where
  "int_to_js i = (if i < 0 then 45 # nat_to_js (nat (- i)) else nat_to_js (nat i))"

fun json_print :: "json \<Rightarrow> jstr"
  and print_elems :: "json list \<Rightarrow> jstr"
  and print_members :: "(jstr \<times> json) list \<Rightarrow> jstr" where
  "json_print JNull = js ''null''"
| "json_print (JBool b) = (if b then js ''true'' else js ''false'')"
| "json_print (JNum x) =
     (case x of Fin m e \<Rightarrow> int_to_js m @ [101] @ int_to_js e | _ \<Rightarrow> js ''null'')"
| "json_print (JStr s) = quote_str s"
| "json_print (JArr vs) = [91] @ print_elems vs @ [93]"
| "json_print (JObj kvs) = [123] @ print_members kvs @ [125]"
| "print_elems [] = []"
| "print_elems [v] = json_print v"
| "print_elems (v # vs) = json_print v @ [44] @ print_elems vs"
| "print_members [] = []"
| "print_members [(k, v)] = quote_str k @ [58] @ json_print v"
| "print_members ((k, v) # kvs) = quote_str k @ [58] @ json_print v @ [44] @ print_members kvs"

text \<open>Values the serialisation round-trips: finite numbers in normal form.\<close>

fun json_wf :: "json \<Rightarrow> bool" where
  "json_wf (JNum x) = (case x of Fin m e \<Rightarrow> normalized m e | _ \<Rightarrow> False)"
| "json_wf (JArr vs) = list_all json_wf vs"
| "json_wf (JObj kvs) = list_all (\<lambda>(k, v). json_wf v) kvs"
| "json_wf _ = True"

text \<open>What may follow a value inside the producer's output: the end, a comma or a
  closing bracket.\<close>

definition value_stop :: "jstr \<Rightarrow> bool" where
  "value_stop rest \<longleftrightarrow> rest = [] \<or> hd rest = 44 \<or> hd rest = 93 \<or> hd rest = 125"

subsection \<open>Every successful step consumes input\<close>

lemma length_skip_ws: "length (skip_ws s) \<le> length s"
  by (induction s) auto

lemma skip_ws_Cons_less: "skip_ws s = c # cs \<Longrightarrow> length cs < length s"
  using length_skip_ws [of s] by auto

lemma lex_str_consumes: "lex_str acc s = Some (t, r) \<Longrightarrow> length r < length s"
proof (induction "length s" arbitrary: acc s rule: less_induct)
  case less
  obtain c cs where s: "s = c # cs" using less.prems by (cases s) auto
  have step: "length r < length s"
    if "lex_str acc' s' = Some (t, r)" "length s' < length s" for acc' s'
    using less.hyps that by (meson less_trans)
  consider (quote) "c = 34" | (esc) "c \<noteq> 34" "c = 92" | (other) "c \<noteq> 34" "c \<noteq> 92"
    by blast
  then show ?case
  proof cases
    case quote
    with less.prems s show ?thesis by simp
  next
    case other
    then have "lex_str (c # acc) cs = Some (t, r)"
      using less.prems s by (simp split: if_splits)
    then show ?thesis using step s by simp
  next
    case esc
    then obtain d ds where cs: "cs = d # ds" using less.prems s by (cases cs) auto
    show ?thesis
    proof (cases "simple_escape d")
      case (Some u)
      then have "lex_str (u # acc) ds = Some (t, r)" using less.prems s cs esc by simp
      then show ?thesis using step s cs by simp
    next
      case None
      then obtain a b x y rest u where "ds = a # b # x # y # rest"
        and "lex_str (u # acc) rest = Some (t, r)"
        using less.prems s cs esc by (auto split: if_splits list.splits option.splits)
      then show ?thesis using step s cs by simp
    qed
  qed
qed

lemma length_dropWhile_le: "length (dropWhile P s) \<le> length s"
  by (induction s) auto

lemma length_dropWhile_le_Suc [simp]:
  "length (dropWhile P s) \<le> Suc (length s)"
  "length (dropWhile P s) \<le> Suc (Suc (length s))"
  using length_dropWhile_le [of P s] by linarith+

lemma dropWhile_chain:
  "a \<le> b \<Longrightarrow> b \<le> length (dropWhile P s) \<Longrightarrow> a < Suc (length s)"
  "a \<le> b \<Longrightarrow> b \<le> length (dropWhile P s) \<Longrightarrow> a < Suc (Suc (length s))"
  using length_dropWhile_le [of P s] by linarith+

lemma frac_part_consumes: "frac_part s = Some (fp, r) \<Longrightarrow> length r \<le> length s"
  by (auto simp: frac_part_def Let_def split: list.splits if_splits)

lemma exp_part_consumes: "exp_part s = Some (x, r) \<Longrightarrow> length r \<le> length s"
  by (auto simp: exp_part_def Let_def split: list.splits if_splits prod.splits)

lemma lex_number_consumes: "lex_number s = Some (x, r) \<Longrightarrow> length r < length s"
  by (auto simp: lex_number_def Let_def split: list.splits if_splits option.splits prod.splits
      dest!: frac_part_consumes exp_part_consumes)
     (blast intro: dropWhile_chain)+

lemma skip_ws_Cons_le: "skip_ws s = c # cs \<Longrightarrow> length cs < length s"
  using length_skip_ws [of s] by auto

lemma parse_consumes:
  "parse_value n s = Done v r \<Longrightarrow> length r < length s"
  "parse_elems n acc s = Done v r \<Longrightarrow> length r < length s"
  "parse_members n accm s = Done v r \<Longrightarrow> length r < length s"
proof (induction n s and n acc s and n accm s arbitrary: v r and v r and v r
    rule: parse_value_parse_elems_parse_members.induct)
  case (2 n s)
  then show ?case
    by (auto split: list.splits if_splits option.splits prod.splits
        dest!: skip_ws_Cons_le lex_str_consumes lex_number_consumes) fastforce+
next
  case (4 n acc s)
  from "4.prems" obtain v0 r0 where pv: "parse_value (Suc n) s = Done v0 r0"
    by (auto simp del: parse_value.simps split: parse.splits)
  then have "length r0 < length s" by (rule "4.IH"(1))
  with "4.prems" pv "4.IH"(2) show ?case
    by (auto simp del: parse_value.simps split: list.splits if_splits dest!: skip_ws_Cons_le)
       fastforce+
next
  case (6 n accm s)
  show ?case
  proof (cases "skip_ws s")
    case (Cons c cs)
    with "6.prems" obtain k r1 d ds v0 r0 where
      c: "c = 34" and k: "lex_str [] cs = Some (k, r1)" and d: "skip_ws r1 = d # ds" "d = 58"
      and pv: "parse_value (Suc n) ds = Done v0 r0"
      by (auto simp del: parse_value.simps split: if_splits option.splits list.splits parse.splits)
    have "length r0 < length ds" using pv by (rule "6.IH"(1) [OF Cons c k refl d])
    moreover have "length ds < length s"
      using k d Cons lex_str_consumes [OF k] skip_ws_Cons_le [OF Cons] skip_ws_Cons_le [OF d(1)]
      by linarith
    ultimately show ?thesis
      using "6.prems" Cons c k d pv "6.IH"(2) [OF Cons c k refl d pv]
      by (auto simp del: parse_value.simps split: list.splits if_splits dest!: skip_ws_Cons_le)
         fastforce+
  qed (use "6.prems" in simp)
qed simp_all

lemma parse_fuel:
  "length s < n \<Longrightarrow> parse_value n s \<noteq> NoFuel"
  "length s < n \<Longrightarrow> parse_elems n acc s \<noteq> NoFuel"
  "length s < n \<Longrightarrow> parse_members n accm s \<noteq> NoFuel"
proof (induction n s and n acc s and n accm s
    rule: parse_value_parse_elems_parse_members.induct)
  case (2 n s)
  show ?case
  proof (cases "skip_ws s")
    case (Cons c cs)
    then have cs: "length cs < n" using "2.prems" skip_ws_Cons_le [OF Cons] by linarith
    have sub: "length (d # ds) < n" if "skip_ws cs = d # ds" for d ds
      using cs skip_ws_Cons_le [OF that] by simp
    show ?thesis
      using Cons "2.IH" sub
      by (auto split: list.splits if_splits option.splits prod.splits)
  qed simp
next
  case (4 n acc s)
  have pv: "parse_value (Suc n) s \<noteq> NoFuel" using "4.prems" by (rule "4.IH"(1))
  show ?case
  proof (cases "parse_value (Suc n) s")
    case (Done v r)
    have "length r < length s" using Done by (rule parse_consumes(1))
    then have sub: "length cs < n" if "skip_ws r = c # cs" for c cs
      using "4.prems" skip_ws_Cons_le [OF that] by linarith
    show ?thesis
      using Done "4.IH"(2) [OF Done] sub
      by (auto simp del: parse_value.simps split: list.splits if_splits)
  qed (use pv in \<open>simp_all del: parse_value.simps\<close>)
next
  case (6 n accm s)
  show ?case
  proof (cases "skip_ws s")
    case (Cons c cs)
    show ?thesis
    proof (cases "c = 34 \<and> lex_str [] cs \<noteq> None")
      case True
      then obtain k r1 where c: "c = 34" and k: "lex_str [] cs = Some (k, r1)" by auto
      show ?thesis
      proof (cases "skip_ws r1")
        case (Cons d ds)
        have lds: "length ds < length s"
          using lex_str_consumes [OF k] skip_ws_Cons_le [OF \<open>skip_ws s = c # cs\<close>]
            skip_ws_Cons_le [OF Cons] by linarith
        show ?thesis
        proof (cases "d = 58")
          case True
          have pv: "parse_value (Suc n) ds \<noteq> NoFuel"
            using "6.IH"(1) [OF \<open>skip_ws s = c # cs\<close> c k refl Cons True] lds "6.prems"
            by linarith
          show ?thesis
          proof (cases "parse_value (Suc n) ds")
            case (Done v r2)
            have "length r2 < length ds" using Done by (rule parse_consumes(1))
            then have sub: "length es < n" if "skip_ws r2 = e # es" for e es
              using lds "6.prems" skip_ws_Cons_le [OF that] by linarith
            show ?thesis
              using \<open>skip_ws s = c # cs\<close> c k Cons True Done sub
                "6.IH"(2) [OF \<open>skip_ws s = c # cs\<close> c k refl Cons True Done]
              by (auto simp del: parse_value.simps split: list.splits if_splits)
          qed (use \<open>skip_ws s = c # cs\<close> c k Cons True pv in \<open>simp_all del: parse_value.simps\<close>)
        qed (use \<open>skip_ws s = c # cs\<close> c k Cons in simp)
      qed (use \<open>skip_ws s = c # cs\<close> c k in simp)
    qed (use Cons in \<open>auto split: option.splits\<close>)
  qed simp
qed simp_all


subsection \<open>The parser yields finite numbers in normal form\<close>

lemma mk_num_wf: "json_wf (JNum (mk_num m e))"
proof -
  obtain m' e' where d: "norm_dec m e = (m', e')" by fastforce
  then show ?thesis using norm_dec_normalized [OF d] by (simp add: mk_num_def)
qed

lemma lex_number_mk: "lex_number s = Some (x, r) \<Longrightarrow> \<exists>m e. x = mk_num m e"
  by (auto simp: lex_number_def Let_def split: prod.splits list.splits if_splits option.splits)

lemma lex_number_wf: "lex_number s = Some (x, r) \<Longrightarrow> json_wf (JNum x)"
  using lex_number_mk mk_num_wf by blast

lemma parse_wf:
  "parse_value n s = Done v r \<Longrightarrow> json_wf v"
  "parse_elems n acc s = Done v r \<Longrightarrow> list_all json_wf acc \<Longrightarrow> json_wf v"
  "parse_members n accm s = Done v r \<Longrightarrow> list_all (\<lambda>(k, v). json_wf v) accm \<Longrightarrow> json_wf v"
proof (induction n s and n acc s and n accm s arbitrary: v r and v r and v r
    rule: parse_value_parse_elems_parse_members.induct)
  case (2 n s)
  then show ?case
    by (auto split: list.splits if_splits option.splits prod.splits dest: lex_number_wf)
next
  case (4 n acc s)
  from "4.prems"(1) obtain v0 r0 where pv: "parse_value (Suc n) s = Done v0 r0"
    by (auto simp del: parse_value.simps split: parse.splits)
  then have "json_wf v0" by (rule "4.IH"(1))
  with "4.prems" pv "4.IH"(2) show ?case
    by (auto simp del: parse_value.simps split: list.splits if_splits)
next
  case (6 n accm s)
  show ?case
  proof (cases "skip_ws s")
    case (Cons c cs)
    with "6.prems"(1) obtain k r1 d ds v0 r0 where
      c: "c = 34" and k: "lex_str [] cs = Some (k, r1)" and d: "skip_ws r1 = d # ds" "d = 58"
      and pv: "parse_value (Suc n) ds = Done v0 r0"
      by (auto simp del: parse_value.simps split: if_splits option.splits list.splits parse.splits)
    have "json_wf v0" using pv by (rule "6.IH"(1) [OF Cons c k refl d])
    then show ?thesis
      using "6.prems" Cons c k d pv "6.IH"(2) [OF Cons c k refl d pv]
      by (auto simp del: parse_value.simps split: list.splits if_splits)
  qed (use "6.prems" in simp)
qed simp_all

subsection \<open>The lexers invert the serialisation\<close>

lemma unat_hex_digit: "d < 16 \<Longrightarrow> unat (hex_digit d) = (if d < 10 then 48 + d else 87 + d)"
  unfolding hex_digit_def by (simp only: unat_of_nat split: if_split) simp

lemma hex_val_hex_digit: "d < 16 \<Longrightarrow> hex_val (hex_digit d) = Some d"
  by (simp add: hex_val_def unat_hex_digit Let_def)

lemma hex4_control:
  assumes "unat c < 32"
  shows "hex4 48 48 (hex_digit (unat c div 16)) (hex_digit (unat c mod 16)) = Some c"
proof -
  have "unat c div 16 < 16" "unat c mod 16 < 16" using assms by simp_all
  moreover have "hex_val 48 = Some 0" by (simp add: hex_val_def)
  ultimately have "hex4 48 48 (hex_digit (unat c div 16)) (hex_digit (unat c mod 16)) =
             Some (of_nat (unat c div 16 * 16 + unat c mod 16))"
    by (simp add: hex4_def hex_val_hex_digit)
  also have "unat c div 16 * 16 + unat c mod 16 = unat c" by simp
  finally show ?thesis by simp
qed

lemma lex_str_quote:
  "lex_str acc (concat (map quote_cu s) @ 34 # rest) = Some (rev acc @ s, rest)"
proof (induction s arbitrary: acc)
  case Nil
  then show ?case by simp
next
  case (Cons c s)
  consider "c = 34" | "c = 92" | "c \<noteq> 34" "c \<noteq> 92" "unat c < 32"
    | "c \<noteq> 34" "c \<noteq> 92" "\<not> unat c < 32"
    by blast
  then show ?case
  proof cases
    case 1
    then show ?thesis using Cons.IH [of "34 # acc"] by (simp add: quote_cu_def simple_escape_def)
  next
    case 2
    then show ?thesis using Cons.IH [of "92 # acc"] by (simp add: quote_cu_def simple_escape_def)
  next
    case 3
    then show ?thesis using Cons.IH [of "c # acc"]
      by (simp add: quote_cu_def simple_escape_def hex4_control)
  next
    case 4
    then show ?thesis using Cons.IH [of "c # acc"] by (simp add: quote_cu_def)
  qed
qed

lemma nat_to_js_Cons_digit: "nat_to_js k = c # cs \<Longrightarrow> is_digit c \<and> (\<forall>x \<in> set cs. is_digit x)"
  using nat_to_js_digits [of _ k] by (metis list.set_intros(1) list.set_intros(2))

lemma not_digit_special [simp]:
  "\<not> is_digit 43" "\<not> is_digit 45" "\<not> is_digit 46" "\<not> is_digit 101" "\<not> is_digit 69"
  "\<not> is_digit 44" "\<not> is_digit 93" "\<not> is_digit 125" "\<not> is_digit 34"
  by (simp_all add: is_digit_def)

lemma digit_neq_special: "is_digit c \<Longrightarrow> c \<noteq> 43 \<and> c \<noteq> 45 \<and> c \<noteq> 46 \<and> c \<noteq> 101 \<and> c \<noteq> 69"
  by auto

lemma take_drop_digits:
  assumes "\<forall>x \<in> set ds. is_digit x" "rest = [] \<or> \<not> is_digit (hd rest)"
  shows "takeWhile is_digit (ds @ rest) = ds" "dropWhile is_digit (ds @ rest) = rest"
  using assms by (cases rest; simp add: takeWhile_append2 dropWhile_append2)+

lemma exp_part_print:
  assumes "rest = [] \<or> \<not> is_digit (hd rest)"
  shows "exp_part (101 # int_to_js e @ rest) = Some (e, rest)"
proof (cases "e < 0")
  case True
  have d: "\<forall>x \<in> set (nat_to_js (nat (- e))). is_digit x" using nat_to_js_digits by blast
  show ?thesis
    using True take_drop_digits [OF d assms]
    by (simp add: exp_part_def int_to_js_def)
next
  case False
  obtain c cs where cc: "nat_to_js (nat e) = c # cs" by (cases "nat_to_js (nat e)") auto
  with nat_to_js_Cons_digit have c: "is_digit c" and d: "\<forall>x \<in> set (c # cs). is_digit x" by auto
  show ?thesis
    using False cc digit_neq_special [OF c] take_drop_digits [OF d assms]
      digits_nat_nat_to_js [of "nat e", unfolded cc]
    by (simp add: exp_part_def int_to_js_def)
qed

lemma int_part_print:
  assumes "nat_to_js k = c # cs"
  shows "(if c = 48 then [c] else c # takeWhile is_digit (cs @ 101 # x)) = nat_to_js k"
    and "(if c = 48 then cs @ 101 # x else dropWhile is_digit (cs @ 101 # x)) = 101 # x"
proof -
  have d: "\<forall>y \<in> set cs. is_digit y" using nat_to_js_Cons_digit [OF assms] by blast
  have stop: "101 # x = [] \<or> \<not> is_digit (hd (101 # x))" by simp
  show "(if c = 48 then [c] else c # takeWhile is_digit (cs @ 101 # x)) = nat_to_js k"
    using assms nat_to_js_0 nat_to_js_hd [of k] take_drop_digits [OF d stop]
    by (cases "k = 0") auto
  show "(if c = 48 then cs @ 101 # x else dropWhile is_digit (cs @ 101 # x)) = 101 # x"
    using assms nat_to_js_0 nat_to_js_hd [of k] take_drop_digits [OF d stop]
    by (cases "k = 0") auto
qed

lemma lex_number_print:
  assumes "rest = [] \<or> \<not> is_digit (hd rest)"
  shows "lex_number (int_to_js m @ 101 # int_to_js e @ rest) = Some (mk_num m e, rest)"
proof -
  define k where "k = nat \<bar>m\<bar>"
  obtain c cs where cc: "nat_to_js k = c # cs" by (cases "nat_to_js k") auto
  have c: "is_digit c" using nat_to_js_Cons_digit [OF cc] by blast
  note ip = int_part_print [OF cc, of "int_to_js e @ rest"]
  have ex: "exp_part (101 # int_to_js e @ rest) = Some (e, rest)" by (rule exp_part_print [OF assms])
  have fr: "frac_part (101 # int_to_js e @ rest) = Some ([], 101 # int_to_js e @ rest)"
    by (simp add: frac_part_def)
  have m: "(if m < 0 then - int k else int k) = m" by (simp add: k_def)
  have dk: "digits_nat (c # cs) = k" using digits_nat_nat_to_js [of k] cc by simp
  show ?thesis
  proof (cases "m < 0")
    case True
    then have "int_to_js m = 45 # nat_to_js k" by (simp add: int_to_js_def k_def)
    then show ?thesis
      using True cc c ip ex fr m dk by (simp add: lex_number_def Let_def del: nat_to_js_ne)
  next
    case False
    then have "int_to_js m = nat_to_js k" by (simp add: int_to_js_def k_def)
    then show ?thesis
      using False cc c digit_neq_special [OF c] ip ex fr m dk
      by (simp add: lex_number_def Let_def del: nat_to_js_ne)
  qed
qed

lemma json_ws_struct [simp]:
  "\<not> json_ws 44" "\<not> json_ws 93" "\<not> json_ws 125" "\<not> json_ws 34" "\<not> json_ws 58"
  "\<not> json_ws 91" "\<not> json_ws 123"
  by (simp_all add: json_ws_def)

lemma digit_not_struct:
  "is_digit c \<Longrightarrow> c \<noteq> 123 \<and> c \<noteq> 91 \<and> c \<noteq> 34 \<and> c \<noteq> 116 \<and> c \<noteq> 102 \<and> c \<noteq> 110
     \<and> c \<noteq> 93 \<and> c \<noteq> 125 \<and> \<not> json_ws c"
  by (auto simp: is_digit_def json_ws_def)

lemma int_to_js_Cons: "\<exists>c cs. int_to_js m = c # cs \<and> (c = 45 \<or> is_digit c)"
proof -
  obtain c cs where "nat_to_js (nat \<bar>m\<bar>) = c # cs" by (cases "nat_to_js (nat \<bar>m\<bar>)") auto
  then show ?thesis using nat_to_js_Cons_digit by (auto simp: int_to_js_def)
qed

lemma json_print_start:
  "\<exists>c cs. json_print v = c # cs \<and> \<not> json_ws c \<and> c \<noteq> 93 \<and> c \<noteq> 125"
proof (cases v)
  case (JNum x)
  show ?thesis
  proof (cases x)
    case (Fin m e)
    obtain c cs where "int_to_js m = c # cs" "c = 45 \<or> is_digit c" using int_to_js_Cons by blast
    then show ?thesis using JNum Fin digit_not_struct [of c] by (auto simp: json_ws_def)
  qed (simp_all add: JNum js_def json_ws_def)
qed (auto simp: js_def json_ws_def quote_str_def)

lemma value_stop_no_digit: "value_stop rest \<Longrightarrow> rest = [] \<or> \<not> is_digit (hd rest)"
  by (auto simp: value_stop_def)

lemma value_stop_Cons [simp]: "value_stop (44 # r)" "value_stop (93 # r)" "value_stop (125 # r)"
  by (simp_all add: value_stop_def)

lemma skip_ws_print: "skip_ws (json_print v @ rest) = json_print v @ rest"
  using json_print_start [of v] by auto

lemma skip_ws_print_elems:
  "vs \<noteq> [] \<Longrightarrow> \<exists>d ds. skip_ws (print_elems vs @ rest) = d # ds \<and> d \<noteq> 93
     \<and> print_elems vs @ rest = d # ds"
proof -
  assume "vs \<noteq> []"
  then obtain v vs' where vs: "vs = v # vs'" by (cases vs) auto
  obtain c cs where "json_print v = c # cs" "\<not> json_ws c" "c \<noteq> 93" "c \<noteq> 125"
    using json_print_start [of v] by blast
  then show ?thesis using vs by (cases vs') auto
qed

lemma skip_ws_print_members:
  "kvs \<noteq> [] \<Longrightarrow> \<exists>ds. skip_ws (print_members kvs @ rest) = 34 # ds \<and> print_members kvs @ rest = 34 # ds"
proof -
  assume "kvs \<noteq> []"
  then obtain k v kvs' where kvs: "kvs = (k, v) # kvs'" by (cases kvs) auto
  then show ?thesis by (cases kvs') (auto simp: quote_str_def json_ws_def)
qed

lemma parse_print:
  "json_wf v \<Longrightarrow> value_stop rest \<Longrightarrow> length (json_print v) < n \<Longrightarrow>
     parse_value n (json_print v @ rest) = Done v rest"
  "vs \<noteq> [] \<Longrightarrow> list_all json_wf vs \<Longrightarrow> length (print_elems vs) < n \<Longrightarrow>
     parse_elems n acc (print_elems vs @ 93 # rest) = Done (JArr (acc @ vs)) rest"
  "kvs \<noteq> [] \<Longrightarrow> list_all (\<lambda>(k, v). json_wf v) kvs \<Longrightarrow> length (print_members kvs) < n \<Longrightarrow>
     parse_members n accm (print_members kvs @ 125 # rest) = Done (JObj (accm @ kvs)) rest"
proof (induction v and vs and kvs arbitrary: n rest and n acc rest and n accm rest
    rule: json_print_print_elems_print_members.induct)
  case (1 n rest)
  then obtain n' where "n = Suc n'" by (cases n) auto
  then show ?case by (simp add: js_def json_ws_def)
next
  case (2 b n rest)
  then obtain n' where "n = Suc n'" by (cases n) auto
  then show ?case by (cases b) (simp_all add: js_def json_ws_def)
next
  case (3 x n rest)
  then obtain m e where x: "x = Fin m e" and nm: "normalized m e" by (cases x) auto
  obtain n' where n: "n = Suc n'" using "3.prems" by (cases n) auto
  obtain c cs where cc: "int_to_js m = c # cs" and c: "c = 45 \<or> is_digit c"
    using int_to_js_Cons by blast
  have lx: "lex_number (c # cs @ 101 # int_to_js e @ rest) = Some (Fin m e, rest)"
    using lex_number_print [OF value_stop_no_digit [OF "3.prems"(2)], of m e] cc
      mk_num_normalized [OF nm] by simp
  have "c \<noteq> 123 \<and> c \<noteq> 91 \<and> c \<noteq> 34 \<and> c \<noteq> 116 \<and> c \<noteq> 102 \<and> c \<noteq> 110 \<and> \<not> json_ws c"
    using c digit_not_struct [of c] by (auto simp: json_ws_def)
  then show ?case using x n cc c lx by simp
next
  case (4 str n rest)
  then obtain n' where "n = Suc n'" by (cases n) auto
  then show ?case
    using lex_str_quote [of "[]" str rest] by (simp add: quote_str_def json_ws_def)
next
  case (5 vs n rest)
  obtain n' where n: "n = Suc n'" using "5.prems" by (cases n) auto
  show ?case
  proof (cases "vs = []")
    case True
    then show ?thesis using n by (simp add: json_ws_def)
  next
    case False
    obtain d ds where d: "skip_ws (print_elems vs @ 93 # rest) = d # ds" "d \<noteq> 93"
      "print_elems vs @ 93 # rest = d # ds"
      using skip_ws_print_elems [OF False] by blast
    have "parse_elems n' [] (print_elems vs @ 93 # rest) = Done (JArr vs) rest"
      using "5.IH" [OF False] "5.prems" n by simp
    then show ?thesis using n d by (simp add: json_ws_def del: parse_elems.simps)
  qed
next
  case (6 kvs n rest)
  obtain n' where n: "n = Suc n'" using "6.prems" by (cases n) auto
  show ?case
  proof (cases "kvs = []")
    case True
    then show ?thesis using n by (simp add: json_ws_def)
  next
    case False
    obtain ds where d: "skip_ws (print_members kvs @ 125 # rest) = 34 # ds"
      "print_members kvs @ 125 # rest = 34 # ds"
      using skip_ws_print_members [OF False] by blast
    have "parse_members n' [] (print_members kvs @ 125 # rest) = Done (JObj kvs) rest"
      using "6.IH" [OF False] "6.prems" n by simp
    then show ?thesis using n d by (simp add: json_ws_def del: parse_members.simps)
  qed
next
  case (8 v n acc rest)
  obtain n' where n: "n = Suc n'" using "8.prems" by (cases n) auto
  have "parse_value (Suc n') (json_print v @ 93 # rest) = Done v (93 # rest)"
    by (rule "8.IH") (use "8.prems" n in simp_all)
  then show ?case using n by (simp del: parse_value.simps)
next
  case (9 v v' vs n acc rest)
  obtain n' where n: "n = Suc n'" using "9.prems" by (cases n) auto
  have pv: "parse_value (Suc n') (json_print v @ 44 # print_elems (v' # vs) @ 93 # rest) =
      Done v (44 # print_elems (v' # vs) @ 93 # rest)"
    by (rule "9.IH"(1)) (use "9.prems" n in simp_all)
  have pe: "parse_elems n' (acc @ [v]) (print_elems (v' # vs) @ 93 # rest) =
      Done (JArr ((acc @ [v]) @ v' # vs)) rest"
    using "9.IH"(2) "9.prems" n by simp
  have e: "print_elems (v # v' # vs) @ 93 # rest = json_print v @ 44 # print_elems (v' # vs) @ 93 # rest"
    by simp
  show ?case
    unfolding n e by (subst parse_elems.simps(2)) (use pv pe in \<open>simp del: parse_value.simps parse_elems.simps\<close>)
next
  case (11 k v n accm rest)
  obtain n' where n: "n = Suc n'" using "11.prems" by (cases n) auto
  have pv: "parse_value (Suc n') (json_print v @ 125 # rest) = Done v (125 # rest)"
    by (rule "11.IH") (use "11.prems" n in \<open>simp_all add: quote_str_def\<close>)
  show ?case
    using n pv lex_str_quote [of "[]" k "58 # json_print v @ 125 # rest"]
    by (simp add: quote_str_def json_ws_def del: parse_value.simps)
next
  case (12 k v kv kvs n accm rest)
  obtain n' where n: "n = Suc n'" using "12.prems" by (cases n) auto
  have pv: "parse_value (Suc n') (json_print v @ 44 # print_members (kv # kvs) @ 125 # rest) =
      Done v (44 # print_members (kv # kvs) @ 125 # rest)"
    by (rule "12.IH"(1)) (use "12.prems" n in \<open>simp_all add: quote_str_def\<close>)
  have pm: "parse_members n' (accm @ [(k, v)]) (print_members (kv # kvs) @ 125 # rest) =
      Done (JObj ((accm @ [(k, v)]) @ kv # kvs)) rest"
    using "12.IH"(2) "12.prems" n by (simp add: quote_str_def)
  have e: "print_members ((k, v) # kv # kvs) @ 125 # rest =
      34 # concat (map quote_cu k) @ 34 # 58 # json_print v @ 44 # print_members (kv # kvs) @ 125 # rest"
    by (simp add: quote_str_def)
  show ?case
    unfolding n e
    by (subst parse_members.simps(2))
       (use pv pm lex_str_quote [of "[]" k "58 # json_print v @ 44 # print_members (kv # kvs) @ 125 # rest"]
        in \<open>simp del: parse_value.simps parse_members.simps\<close>)
qed simp_all

subsection \<open>Properties of JSON.parse\<close>


text \<open>C6: JSON.parse inverts the producer's serialisation: every JSON value with
  finite numbers in normal form is read back exactly.\<close>

theorem json_parse_print: "json_wf v \<Longrightarrow> json_parse (json_print v) = Inr v"
proof -
  assume wf: "json_wf v"
  have "parse_value (Suc (length (json_print v))) (json_print v @ []) = Done v []"
    by (rule parse_print(1)) (use wf in \<open>simp_all add: value_stop_def\<close>)
  then show ?thesis by (simp add: json_parse_def)
qed

theorem json_parse_print_witness:
  "json_wf (JArr [JObj [(js ''name'', JStr (js ''Widget'')), (js ''quantity'', JNum (Fin 3 0)),
      (js ''unit_price'', JNum (Fin 1 1))]]) \<and>
   json_parse (json_print (JArr [JObj [(js ''name'', JStr (js ''Widget'')),
      (js ''quantity'', JNum (Fin 3 0)), (js ''unit_price'', JNum (Fin 1 1))]])) =
   Inr (JArr [JObj [(js ''name'', JStr (js ''Widget'')), (js ''quantity'', JNum (Fin 3 0)),
      (js ''unit_price'', JNum (Fin 1 1))]])"
proof -
  have wf: "json_wf (JArr [JObj [(js ''name'', JStr (js ''Widget'')), (js ''quantity'', JNum (Fin 3 0)),
      (js ''unit_price'', JNum (Fin 1 1))]])"
    by (simp add: normalized_def)
  show ?thesis using wf json_parse_print [OF wf] by simp
qed



end
