(* ===== verification/NumParse.thy ===== *)
theory NumParse
  imports JsNumber
begin

text \<open>
  The two string-to-number conversions of ECMA-262 that the script reaches:
  \<^verbatim>\<open>parseFloat\<close> on the \<^verbatim>\<open>amount\<close> parameter (line 11 of
  \<^verbatim>\<open>src/checkout_web/script.js\<close>), which reads the longest prefix of the string,
  after leading white space, that is a \<^verbatim>\<open>StrDecimalLiteral\<close>; and
  \<^verbatim>\<open>StringToNumber\<close>, which the multiplication of line 50 applies to a string
  operand and which needs the whole trimmed string to be a
  \<^verbatim>\<open>StringNumericLiteral\<close> (decimal, or \<^verbatim>\<open>0x\<close>, \<^verbatim>\<open>0o\<close>, \<^verbatim>\<open>0b\<close> integers;
  the empty string is 0). White space is \<^verbatim>\<open>StrWhiteSpaceChar\<close>: the
  \<^verbatim>\<open>WhiteSpace\<close> code points (tab, vertical tab, form feed, space, no-break
  space, U+FEFF and the Zs category) and the line terminators.
\<close>

definition js_space :: "cu \<Rightarrow> bool" where
  "js_space c \<longleftrightarrow>
     (let n = unat c in
      n = 9 \<or> n = 10 \<or> n = 11 \<or> n = 12 \<or> n = 13 \<or> n = 32 \<or> n = 0xA0 \<or> n = 0x1680
      \<or> (0x2000 \<le> n \<and> n \<le> 0x200A) \<or> n = 0x2028 \<or> n = 0x2029 \<or> n = 0x202F
      \<or> n = 0x205F \<or> n = 0x3000 \<or> n = 0xFEFF)"

text \<open>The exponent of a \<^verbatim>\<open>StrUnsignedDecimalLiteral\<close>: consumed only when digits
  follow the \<^verbatim>\<open>e\<close> and its sign, since the longest valid prefix is read.\<close>

definition lex_exponent :: "jstr \<Rightarrow> int \<times> jstr" where
  "lex_exponent s =
     (case s of
        c # cs \<Rightarrow>
          if c = 101 \<or> c = 69 then
            (let (sg, r) = (case cs of
                              d # ds \<Rightarrow> if d = 43 then (1, ds) else if d = 45 then (- 1, ds) else (1, cs)
                            | [] \<Rightarrow> (1, cs));
                 ds = takeWhile is_digit r in
             if ds = [] then (0, s) else (sg * int (digits_nat ds), dropWhile is_digit r))
          else (0, s)
      | [] \<Rightarrow> (0, []))"

text \<open>The longest prefix that is a \<^verbatim>\<open>StrDecimalLiteral\<close>: an optional sign, then
  \<^verbatim>\<open>Infinity\<close> or digits with an optional fraction (\<^verbatim>\<open>1.\<close>, \<^verbatim>\<open>.5\<close>, \<^verbatim>\<open>1.5\<close>)
  and an optional exponent.\<close>

definition lex_decimal :: "jstr \<Rightarrow> (jsnum \<times> jstr) option" where
  "lex_decimal s =
     (let (neg, s1) = (case s of
                         c # cs \<Rightarrow> if c = 45 then (True, cs) else if c = 43 then (False, cs) else (False, s)
                       | [] \<Rightarrow> (False, s)) in
      if take 8 s1 = js ''Infinity'' then Some (Inf (\<not> neg), drop 8 s1)
      else
        (let ip = takeWhile is_digit s1;
             r1 = dropWhile is_digit s1;
             (fp, r2) = (case r1 of
                           c # cs \<Rightarrow> if c = 46 then (takeWhile is_digit cs, dropWhile is_digit cs) else ([], r1)
                         | [] \<Rightarrow> ([], r1)) in
         if ip = [] \<and> fp = [] then None
         else
           (let (ex, r3) = lex_exponent r2;
                m = int (digits_nat (ip @ fp)) in
            Some (mk_num (if neg then - m else m) (ex - int (length fp)), r3))))"

definition parse_float :: "jstr \<Rightarrow> jsnum" where
  "parse_float s = (case lex_decimal (dropWhile js_space s) of None \<Rightarrow> NaN | Some (x, r) \<Rightarrow> x)"

definition radix_digit :: "nat \<Rightarrow> cu \<Rightarrow> nat option" where
  "radix_digit b c =
     (let n = unat c;
          d = (if 48 \<le> n \<and> n \<le> 57 then n - 48
               else if 97 \<le> n \<and> n \<le> 122 then n - 87
               else if 65 \<le> n \<and> n \<le> 90 then n - 55 else 36) in
      if d < b then Some d else None)"

definition radix_value :: "nat \<Rightarrow> jstr \<Rightarrow> nat option" where
  "radix_value b ds =
     (if ds = [] then None
      else map_option (foldl (\<lambda>a d. b * a + d) 0) (those (map (radix_digit b) ds)))"

definition non_decimal :: "jstr \<Rightarrow> nat option" where
  "non_decimal t =
     (case t of
        z # x # ds \<Rightarrow>
          if z \<noteq> 48 then None
          else if x = 120 \<or> x = 88 then radix_value 16 ds
          else if x = 111 \<or> x = 79 then radix_value 8 ds
          else if x = 98 \<or> x = 66 then radix_value 2 ds
          else None
      | _ \<Rightarrow> None)"

definition trim_js :: "jstr \<Rightarrow> jstr" where
  "trim_js s = rev (dropWhile js_space (rev (dropWhile js_space s)))"

definition string_to_number :: "jstr \<Rightarrow> jsnum" where
  "string_to_number s =
     (let t = trim_js s in
      if t = [] then Fin 0 0
      else (case lex_decimal t of
              Some (x, []) \<Rightarrow> x
            | _ \<Rightarrow> (case non_decimal t of Some n \<Rightarrow> mk_num (int n) 0 | None \<Rightarrow> NaN)))"

text \<open>What may follow the digits of a natural for parseFloat to stop there: nothing, or a
  code unit that is neither a digit, nor a point, nor an exponent mark.\<close>

definition num_stop :: "jstr \<Rightarrow> bool" where
  "num_stop rest \<longleftrightarrow> rest = [] \<or> (\<not> is_digit (hd rest) \<and> hd rest \<noteq> 46 \<and> hd rest \<noteq> 101 \<and> hd rest \<noteq> 69)"

subsection \<open>parseFloat reads the longest decimal prefix\<close>

lemma digit_not_space: "is_digit c \<Longrightarrow> \<not> js_space c"
  by (auto simp: is_digit_def js_space_def Let_def)

lemma nat_to_js_hd_digit: "is_digit (hd (nat_to_js n))"
  using nat_to_js_digits [of "hd (nat_to_js n)" n] by simp

lemma takeWhile_digits_stop:
  "rest = [] \<or> \<not> is_digit (hd rest) \<Longrightarrow> takeWhile is_digit (nat_to_js n @ rest) = nat_to_js n"
  by (cases rest) (auto simp: nat_to_js_digits)

lemma dropWhile_digits_stop:
  "rest = [] \<or> \<not> is_digit (hd rest) \<Longrightarrow> dropWhile is_digit (nat_to_js n @ rest) = rest"
  by (cases rest) (auto simp: nat_to_js_digits)

lemma lex_exponent_stop: "num_stop rest \<Longrightarrow> lex_exponent rest = (0, rest)"
  by (cases rest) (auto simp: lex_exponent_def num_stop_def)

lemma lex_decimal_nat:
  assumes "num_stop rest"
  shows "lex_decimal (nat_to_js n @ rest) = Some (mk_num (int n) 0, rest)"
proof -
  let ?s = "nat_to_js n @ rest"
  obtain c cs where c: "nat_to_js n = c # cs" by (cases "nat_to_js n") auto
  have d: "is_digit c" using nat_to_js_hd_digit [of n] c by simp
  then have ne: "c \<noteq> 45" "c \<noteq> 43" "c \<noteq> 73" by (auto simp: is_digit_def)
  have sign: "(case ?s of x # xs \<Rightarrow> if x = 45 then (True, xs) else if x = 43 then (False, xs) else (False, ?s)
              | [] \<Rightarrow> (False, ?s)) = (False, ?s)"
    using c ne by simp
  have inf: "take 8 ?s \<noteq> js ''Infinity''" using c ne by (auto simp: js_def)
  have stop: "rest = [] \<or> \<not> is_digit (hd rest)" using assms by (auto simp: num_stop_def)
  have frac: "(case rest of x # xs \<Rightarrow> if x = 46 then (takeWhile is_digit xs, dropWhile is_digit xs) else ([], rest)
            | [] \<Rightarrow> ([], rest)) = ([], rest)"
    using assms by (cases rest) (auto simp: num_stop_def)
  have ip: "takeWhile is_digit ?s = nat_to_js n" by (rule takeWhile_digits_stop [OF stop])
  have r1: "dropWhile is_digit ?s = rest" by (rule dropWhile_digits_stop [OF stop])
  show ?thesis
    unfolding lex_decimal_def Let_def sign
    by (simp only: inf ip r1 frac if_False lex_exponent_stop [OF assms] split) simp
qed

lemma parse_float_nat: "num_stop rest \<Longrightarrow> parse_float (nat_to_js n @ rest) = mk_num (int n) 0"
proof -
  assume a: "num_stop rest"
  obtain c cs where c: "nat_to_js n = c # cs" by (cases "nat_to_js n") auto
  have "\<not> js_space c" using nat_to_js_hd_digit [of n] c digit_not_space by simp
  then have "dropWhile js_space (nat_to_js n @ rest) = nat_to_js n @ rest" using c by simp
  then show ?thesis by (simp add: parse_float_def lex_decimal_nat [OF a])
qed

subsection \<open>StringToNumber reads back Number::toString\<close>

lemma norm_dec_step: "m \<noteq> 0 \<Longrightarrow> norm_dec (m * 10) e = norm_dec m (e + 1)"
  by (subst norm_dec.simps) simp

lemma norm_dec_shift: "m \<noteq> 0 \<Longrightarrow> norm_dec (m * 10 ^ j) e = norm_dec m (e + int j)"
proof (induction j arbitrary: e)
  case (Suc j)
  have eq: "m * 10 ^ Suc j = m * 10 ^ j * 10" by (simp add: algebra_simps)
  have "norm_dec (m * 10 ^ Suc j) e = norm_dec (m * 10 ^ j) (e + 1)"
    unfolding eq by (rule norm_dec_step) (use Suc.prems in simp)
  also have "\<dots> = norm_dec m (e + int (Suc j))" using Suc.IH [of "e + 1"] Suc.prems by (simp add: add.assoc)
  finally show ?case .
qed simp

lemma takeWhile_all_digits:
  "\<forall>c \<in> set ip. is_digit c \<Longrightarrow> rest = [] \<or> \<not> is_digit (hd rest) \<Longrightarrow>
   takeWhile is_digit (ip @ rest) = ip \<and> dropWhile is_digit (ip @ rest) = rest"
  by (cases rest) (simp_all add: takeWhile_append2 dropWhile_append2)

lemma lex_decimal_shape:
  assumes ip: "ip \<noteq> []" "\<forall>c \<in> set ip. is_digit c" and fp: "\<forall>c \<in> set fp. is_digit c"
    and r: "lex_exponent r = (x, [])" "r = [] \<or> hd r = 101"
    and dot: "dot = (if fp = [] then [] else [46])"
  shows "lex_decimal ((if neg then [45] else []) @ ip @ dot @ fp @ r) =
           Some (mk_num (if neg then - int (digits_nat (ip @ fp)) else int (digits_nat (ip @ fp)))
                   (x - int (length fp)), [])"
proof -
  let ?u = "ip @ dot @ fp @ r"
  obtain c cs where c: "ip = c # cs" using ip(1) by (cases ip) auto
  have d: "is_digit c" using ip(2) c by simp
  then have ne: "c \<noteq> 45" "c \<noteq> 43" "c \<noteq> 73" by (auto simp: is_digit_def)
  have sign: "(case (if neg then [45] else []) @ ?u of
                 x # xs \<Rightarrow> if x = 45 then (True, xs) else if x = 43 then (False, xs) else (False, (if neg then [45] else []) @ ?u)
               | [] \<Rightarrow> (False, (if neg then [45] else []) @ ?u)) = (neg, ?u)"
    using c ne by simp
  have inf: "take 8 ?u \<noteq> js ''Infinity''" using c ne by (auto simp: js_def)
  have stop1: "dot @ fp @ r = [] \<or> \<not> is_digit (hd (dot @ fp @ r))"
    using r(2) fp dot by (cases fp) auto
  have t1: "takeWhile is_digit ?u = ip" "dropWhile is_digit ?u = dot @ fp @ r"
    using takeWhile_all_digits [OF ip(2) stop1] by simp_all
  have stop2: "r = [] \<or> \<not> is_digit (hd r)" using r(2) by auto
  have t2: "takeWhile is_digit (fp @ r) = fp" "dropWhile is_digit (fp @ r) = r"
    using takeWhile_all_digits [OF fp stop2] by simp_all
  have frac: "(case dot @ fp @ r of x # xs \<Rightarrow> if x = 46 then (takeWhile is_digit xs, dropWhile is_digit xs)
                 else ([], dot @ fp @ r) | [] \<Rightarrow> ([], dot @ fp @ r)) = (fp, r)"
  proof (cases "fp = []")
    case True
    then show ?thesis using dot r(2) by (cases r) auto
  next
    case False
    then show ?thesis using dot t2 by simp
  qed
  show ?thesis
    unfolding lex_decimal_def Let_def sign
    by (simp only: inf t1 frac if_False r(1) split) (use ip(1) in simp)
qed

lemma takeWhile_nat_to_js [simp]:
  "takeWhile is_digit (nat_to_js n) = nat_to_js n" "dropWhile is_digit (nat_to_js n) = []"
  using takeWhile_all_digits [of "nat_to_js n" "[]"] nat_to_js_digits by auto

lemma lex_exponent_print:
  "lex_exponent ([101, if x < 0 then 45 else 43] @ nat_to_js (nat \<bar>x\<bar>)) = (x, [])"
  by (simp add: lex_exponent_def Let_def)

lemma mk_num_signed:
  assumes "0 < s" "\<not> 10 dvd s"
  shows "mk_num (if neg then - int s else int s) e = Fin (if neg then - int s else int s) e"
proof (rule mk_num_normalized)
  have "\<not> (10::int) dvd int s" using assms(2) by presburger
  then show "normalized (if neg then - int s else int s) e" using assms(1) by (simp add: normalized_def)
qed

lemma nat_to_js_all_digits: "\<forall>c \<in> set (nat_to_js s). is_digit c"
  using nat_to_js_digits by blast

lemma lex_decimal_pos_to_string:
  assumes s: "0 < s" "\<not> 10 dvd s"
  shows "lex_decimal ((if neg then [45] else []) @ pos_to_string s e)
           = Some (Fin (if neg then - int s else int s) e, [])"
proof -
  define ds k n where "ds = nat_to_js s" "k = int (length ds)" "n = k + e"
  have dd: "\<forall>c \<in> set ds. is_digit c" "ds \<noteq> []" "digits_nat ds = s"
    using nat_to_js_all_digits by (simp_all add: ds_k_n_def)
  have "1 \<le> length ds" using dd(2) by (cases ds) auto
  then have k1: "1 \<le> k" by (simp add: ds_k_n_def)
  have pe: "pos_to_string s e =
      (if k \<le> n \<and> n \<le> 21 then ds @ replicate (nat (n - k)) 48
       else if 0 < n \<and> n \<le> 21 then take (nat n) ds @ [46] @ drop (nat n) ds
       else if - 6 < n \<and> n \<le> 0 then [48, 46] @ replicate (nat (- n)) 48 @ ds
       else if k = 1 then ds @ [101, if n - 1 < 0 then 45 else 43] @ nat_to_js (nat \<bar>n - 1\<bar>)
       else take 1 ds @ [46] @ drop 1 ds @ [101, if n - 1 < 0 then 45 else 43] @ nat_to_js (nat \<bar>n - 1\<bar>))"
    by (simp only: pos_to_string_def ds_k_n_def Let_def)
  let ?sg = "\<lambda>m::int. if neg then - m else m"
  have sg: "mk_num (?sg (int s)) e = Fin (?sg (int s)) e" by (rule mk_num_signed [OF s])
  consider (a) "k \<le> n" "n \<le> 21" | (b) "\<not> (k \<le> n \<and> n \<le> 21)" "0 < n" "n \<le> 21"
    | (c) "\<not> (k \<le> n \<and> n \<le> 21)" "\<not> (0 < n \<and> n \<le> 21)" "- 6 < n" "n \<le> 0"
    | (d) "\<not> (k \<le> n \<and> n \<le> 21)" "\<not> (0 < n \<and> n \<le> 21)" "\<not> (- 6 < n \<and> n \<le> 0)"
    by linarith
  then show ?thesis
  proof cases
    case a
    let ?ip = "ds @ replicate (nat (n - k)) 48"
    have p: "pos_to_string s e = ?ip @ [] @ [] @ []" using a by (simp add: pe)
    have "lex_decimal ((if neg then [45] else []) @ ?ip @ [] @ [] @ [])
        = Some (mk_num (?sg (int (digits_nat (?ip @ [])))) (0 - int (length ([]::jstr))), [])"
      by (rule lex_decimal_shape) (use dd in \<open>auto simp: lex_exponent_def\<close>)
    moreover have "digits_nat (?ip @ []) = s * 10 ^ nat e" using a dd by (simp add: digits_nat_append ds_k_n_def)
    moreover have "mk_num (?sg (int (s * 10 ^ nat e))) 0 = Fin (?sg (int s)) e"
    proof -
      have "?sg (int (s * 10 ^ nat e)) = ?sg (int s) * 10 ^ nat e" by simp
      moreover have "?sg (int s) \<noteq> 0" using s by simp
      ultimately have "norm_dec (?sg (int (s * 10 ^ nat e))) 0 = norm_dec (?sg (int s)) e"
        using norm_dec_shift [of "?sg (int s)" "nat e" 0] a by (simp add: ds_k_n_def)
      then show ?thesis using sg by (simp add: mk_num_def)
    qed
    ultimately show ?thesis using p by (cases neg) simp_all
  next
    case b
    let ?ip = "take (nat n) ds" and ?fp = "drop (nat n) ds"
    have p: "pos_to_string s e = ?ip @ [46] @ ?fp @ []" using b by (simp add: pe)
    have fp: "?fp \<noteq> []" using b by (simp add: ds_k_n_def)
    have "lex_decimal ((if neg then [45] else []) @ ?ip @ [46] @ ?fp @ [])
        = Some (mk_num (?sg (int (digits_nat (?ip @ ?fp)))) (0 - int (length ?fp)), [])"
      by (rule lex_decimal_shape)
         (use dd b fp in \<open>auto simp: lex_exponent_def dest: in_set_takeD in_set_dropD\<close>)
    moreover have "0 - int (length ?fp) = e" using b k1 by (simp add: ds_k_n_def)
    ultimately show ?thesis using p dd sg by (cases neg) simp_all
  next
    case c
    let ?fp = "replicate (nat (- n)) 48 @ ds"
    have p: "pos_to_string s e = [48] @ [46] @ ?fp @ []" using c by (simp add: pe)
    have "lex_decimal ((if neg then [45] else []) @ [48] @ [46] @ ?fp @ [])
        = Some (mk_num (?sg (int (digits_nat ([48] @ ?fp)))) (0 - int (length ?fp)), [])"
      by (rule lex_decimal_shape) (use dd in \<open>auto simp: lex_exponent_def\<close>)
    moreover have "0 - int (length ?fp) = e" using c by (simp add: ds_k_n_def)
    moreover have "digits_nat ([48] @ ?fp) = s" using dd by (simp add: digits_nat_append)
    ultimately show ?thesis using p sg by (cases neg) simp_all
  next
    case d
    let ?r = "[101, if n - 1 < 0 then 45 else 43] @ nat_to_js (nat \<bar>n - 1\<bar>)"
    have r: "lex_exponent ?r = (n - 1, [])" by (rule lex_exponent_print)
    show ?thesis
    proof (cases "k = 1")
      case True
      have p: "pos_to_string s e = ds @ [] @ [] @ ?r"
        by (simp only: pe if_not_P [OF d(1)] if_not_P [OF d(2)] if_not_P [OF d(3)] if_P [OF True] append_Nil)
      have "lex_decimal ((if neg then [45] else []) @ ds @ [] @ [] @ ?r)
          = Some (mk_num (?sg (int (digits_nat (ds @ [])))) (n - 1 - int (length ([]::jstr))), [])"
        by (rule lex_decimal_shape) (use dd r in simp_all)
      then show ?thesis using p dd sg True by (cases neg) (simp_all add: ds_k_n_def)
    next
      case False
      let ?ip = "take 1 ds" and ?fp = "drop 1 ds"
      have p: "pos_to_string s e = ?ip @ [46] @ ?fp @ ?r"
        by (simp only: pe if_not_P [OF d(1)] if_not_P [OF d(2)] if_not_P [OF d(3)] if_not_P [OF False]
            append_assoc append_Cons append_Nil)
      have fp: "?fp \<noteq> []" using False k1 by (simp add: ds_k_n_def)
      have "lex_decimal ((if neg then [45] else []) @ ?ip @ [46] @ ?fp @ ?r)
          = Some (mk_num (?sg (int (digits_nat (?ip @ ?fp)))) (n - 1 - int (length ?fp)), [])"
        by (rule lex_decimal_shape) (use dd r fp in \<open>auto dest: in_set_takeD in_set_dropD\<close>)
      moreover have "n - 1 - int (length ?fp) = e" using k1 by (simp add: ds_k_n_def)
      ultimately show ?thesis using p dd sg by (cases neg) simp_all
    qed
  qed
qed

lemma pos_to_string_chars:
  "c \<in> set (pos_to_string s e) \<Longrightarrow> is_digit c \<or> c = 43 \<or> c = 45 \<or> c = 46 \<or> c = 101"
  by (auto simp: pos_to_string_def Let_def split: if_splits dest!: in_set_takeD in_set_dropD nat_to_js_digits)

lemma trim_js_id: "\<forall>c \<in> set t. \<not> js_space c \<Longrightarrow> trim_js t = t"
proof -
  assume a: "\<forall>c \<in> set t. \<not> js_space c"
  then have "dropWhile js_space t = t" by (cases t) auto
  moreover have "dropWhile js_space (rev t) = rev t" using a by (cases "rev t") auto
  ultimately show ?thesis by (simp add: trim_js_def)
qed

lemma js_space_num_chars: "is_digit c \<or> c = 43 \<or> c = 45 \<or> c = 46 \<or> c = 101 \<Longrightarrow> \<not> js_space c"
  by (auto simp: is_digit_def js_space_def Let_def)

lemma string_to_number_signed:
  assumes "0 < s" "\<not> 10 dvd s"
  shows "string_to_number ((if neg then [45] else []) @ pos_to_string s e)
           = Fin (if neg then - int s else int s) e"
proof -
  let ?t = "(if neg then [45] else []) @ pos_to_string s e"
  have "\<forall>c \<in> set ?t. \<not> js_space c"
    using pos_to_string_chars js_space_num_chars by (auto split: if_splits)
  then have tr: "trim_js ?t = ?t" by (rule trim_js_id)
  have ne: "?t \<noteq> []" by (simp add: pos_to_string_def Let_def)
  show ?thesis using tr ne lex_decimal_pos_to_string [OF assms, of neg e]
    by (cases neg) (simp_all add: string_to_number_def Let_def)
qed

lemma normalized_no_ten: "normalized m e \<Longrightarrow> m \<noteq> 0 \<Longrightarrow> \<not> 10 dvd nat \<bar>m\<bar>"
proof
  assume n: "normalized m e" "m \<noteq> 0" and "10 dvd nat \<bar>m\<bar>"
  then have "int 10 dvd int (nat \<bar>m\<bar>)" by (simp only: int_dvd_int_iff)
  then have "10 dvd m" by simp
  with n show False by (simp add: normalized_def)
qed

text \<open>C29: StringToNumber inverts Number::toString: every Number value, printed as a
  template literal prints it, reads back as the same value in normal form (NaN,
  both infinities, zero, and finite values in all four output shapes: integer
  digits, a decimal point, a leading \<^verbatim>\<open>0.\<close>, exponent notation).\<close>

theorem string_to_number_to_string:
  "string_to_number (num_to_string x) = (case x of Fin m e \<Rightarrow> mk_num m e | _ \<Rightarrow> x)"
proof (cases x)
  case NaN
  have "string_to_number (num_to_string NaN) = NaN" by code_simp
  then show ?thesis using NaN by simp
next
  case (Inf b)
  have "string_to_number (num_to_string (Inf True)) = Inf True"
    "string_to_number (num_to_string (Inf False)) = Inf False" by code_simp+
  then show ?thesis using Inf by (cases b) simp_all
next
  case (Fin m e)
  obtain m' e' where d: "norm_dec m e = (m', e')" by fastforce
  have nm: "normalized m' e'" by (rule norm_dec_normalized [OF d])
  have mk: "mk_num m e = Fin m' e'" using d by (simp add: mk_num_def)
  consider "m' = 0" | "m' < 0" | "0 < m'" by linarith
  then show ?thesis
  proof cases
    case 1
    have "string_to_number (js ''0'') = Fin 0 0" by code_simp
    then show ?thesis using Fin d mk 1 nm by (simp add: normalized_def)
  next
    case 2
    have s: "0 < nat (- m')" "\<not> 10 dvd nat (- m')" using 2 normalized_no_ten [OF nm] by simp_all
    show ?thesis using string_to_number_signed [OF s, of True e'] Fin d mk 2 by simp
  next
    case 3
    have s: "0 < nat m'" "\<not> 10 dvd nat m'" using 3 normalized_no_ten [OF nm] by simp_all
    show ?thesis using string_to_number_signed [OF s, of False e'] Fin d mk 3 by simp
  qed
qed

end
