(* ===== verification/Intl.thy ===== *)
theory Intl
  imports JsNumber
begin

text \<open>
  \<^verbatim>\<open>Number.prototype.toLocaleString\<close> with the locale \<^verbatim>\<open>es-AR\<close>, as the script
  calls it: with \<^verbatim>\<open>{style: "currency", currency: "ARS"}\<close> on the order amount
  (lines 12 to 15 of \<^verbatim>\<open>src/checkout_web/script.js\<close>) and with no options on the
  unit price and the subtotal of each row (lines 55 and 56). ECMA-402 rounds the
  absolute value half away from zero (\<^verbatim>\<open>halfExpand\<close>) to the maximum number of
  fraction digits, drops trailing zeros down to the minimum, and groups the integer
  digits by three. The decimal style has 0 to 3 fraction digits; ARS, an ISO 4217
  currency with two minor digits, has exactly 2. The locale data are those of the
  CLDR for \<^verbatim>\<open>es-AR\<close> (\<open>es_AR\<close>): decimal comma, full stop as group separator,
  grouping from four integer digits on, and the currency pattern: the symbol
  \<^verbatim>\<open>$\<close>, a no-break space (U+00A0), then \<^verbatim>\<open>#,##0.00\<close>; a negative value
  takes a leading minus and the infinities print as U+221E.
  The theory also holds two reference definitions the lemmas compare the format
  with: the grouping pattern by digit position (\<open>group_ref\<close>) and a reader that
  takes an es-AR amount back to the integer number of its last fraction unit
  (\<open>read_amount\<close>), against rounding half away from zero (\<open>round_half_away\<close>).
\<close>

record locale_data =
  decimal_sep :: cu
  group_sep :: cu
  min_grouping :: nat
  currency_prefix :: jstr

definition es_AR :: locale_data where
  "es_AR = \<lparr>decimal_sep = 44, group_sep = 46, min_grouping = 1, currency_prefix = [36, 0xA0]\<rparr>"

text \<open>\<open>s \<cdot> 10\<^sup>e \<cdot> 10\<^sup>f\<close> rounded half up to a natural number.\<close>

definition scaled_round :: "nat \<Rightarrow> int \<Rightarrow> nat \<Rightarrow> nat" where
  "scaled_round s e f =
     (let k = e + int f in
      if 0 \<le> k then s * 10 ^ nat k
      else (let d = 10 ^ nat (- k) in s div d + (if d \<le> 2 * (s mod d) then 1 else 0)))"

fun group_digits :: "cu \<Rightarrow> jstr \<Rightarrow> jstr" where
  "group_digits sep ds =
     (if length ds \<le> 3 then ds
      else group_digits sep (take (length ds - 3) ds) @ [sep] @ drop (length ds - 3) ds)"

declare group_digits.simps [simp del]

fun strip_zeros :: "nat \<Rightarrow> jstr \<Rightarrow> jstr" where
  "strip_zeros minf fs =
     (if minf < length fs \<and> last fs = 48 then strip_zeros minf (butlast fs) else fs)"

declare strip_zeros.simps [simp del]

text \<open>The digits of \<open>s \<cdot> 10\<^sup>e\<close> with at least \<open>minf\<close> and at most \<open>maxf\<close> fraction
  digits, grouped and separated as the locale says.\<close>

definition format_fixed :: "locale_data \<Rightarrow> nat \<Rightarrow> nat \<Rightarrow> nat \<Rightarrow> int \<Rightarrow> jstr" where
  "format_fixed loc minf maxf s e =
     (let n = scaled_round s e maxf;
          ds0 = nat_to_js n;
          ds = replicate (Suc maxf - length ds0) 48 @ ds0;
          ip = take (length ds - maxf) ds;
          fp = strip_zeros minf (drop (length ds - maxf) ds);
          ip' = (if 3 + min_grouping loc \<le> length ip then group_digits (group_sep loc) ip else ip) in
      ip' @ (if fp = [] then [] else decimal_sep loc # fp))"

text \<open>\<^verbatim>\<open>x.toLocaleString("es-AR")\<close> for a Number \<open>x\<close>.\<close>

fun locale_number :: "jsnum \<Rightarrow> jstr" where
  "locale_number NaN = js ''NaN''"
| "locale_number (Inf b) = (if b then [0x221E] else [45, 0x221E])"
| "locale_number (Fin m e) =
     (if m < 0 then 45 # format_fixed es_AR 0 3 (nat (- m)) e else format_fixed es_AR 0 3 (nat m) e)"

text \<open>\<^verbatim>\<open>x.toLocaleString("es-AR", {style: "currency", currency: "ARS"})\<close>.\<close>

fun locale_currency :: "jsnum \<Rightarrow> jstr" where
  "locale_currency NaN = currency_prefix es_AR @ js ''NaN''"
| "locale_currency (Inf b) =
     (if b then currency_prefix es_AR @ [0x221E] else 45 # currency_prefix es_AR @ [0x221E])"
| "locale_currency (Fin m e) =
     (if m < 0 then 45 # currency_prefix es_AR @ format_fixed es_AR 2 2 (nat (- m)) e
      else currency_prefix es_AR @ format_fixed es_AR 2 2 (nat m) e)"

subsection \<open>Reference definitions: digit groups and reading an amount back\<close>

text \<open>The CLDR pattern \<^verbatim>\<open>#,##0\<close> by position: a group separator before every
  digit, other than the first, whose distance from the end of the integer digits is a
  multiple of three.\<close>

definition group_ref :: "cu \<Rightarrow> jstr \<Rightarrow> jstr" where
  "group_ref sep ds =
     concat (map (\<lambda>(i, c). (if 0 < i \<and> (length ds - i) mod 3 = 0 then [sep] else []) @ [c])
                 (enumerate 0 ds))"

text \<open>How a reader of the page takes an es-AR amount back: an optional minus sign, the
  prefix, integer digits with full stops between the groups, and, after a comma, at most
  \<open>f\<close> fraction digits. The value is the number of \<open>10\<^sup>-\<^sup>f\<close> units shown.\<close>

definition amount_digits :: "nat \<Rightarrow> jstr \<Rightarrow> nat option" where
  "amount_digits f t =
     (let ip = takeWhile (\<lambda>c. c \<noteq> 44) t; fp = drop (Suc (length ip)) t in
      if ip \<noteq> [] \<and> list_all (\<lambda>c. is_digit c \<or> c = 46) ip \<and> (ip = t \<or> fp \<noteq> [])
         \<and> list_all is_digit fp \<and> length fp \<le> f
      then Some (digits_nat (filter is_digit ip @ fp @ replicate (f - length fp) 48))
      else None)"

definition read_amount :: "nat \<Rightarrow> jstr \<Rightarrow> jstr \<Rightarrow> int option" where
  "read_amount f pre t =
     (let neg = (t \<noteq> [] \<and> hd t = 45); u = (if neg then tl t else t) in
      if take (length pre) u = pre
      then map_option (\<lambda>n. if neg then - int n else int n) (amount_digits f (drop (length pre) u))
      else None)"

text \<open>Rounding to an integer, halves away from zero (ECMA-402 \<^verbatim>\<open>halfExpand\<close>).\<close>

definition round_half_away :: "rat \<Rightarrow> int" where
  "round_half_away r = (if r < 0 then - \<lfloor>- r + 1 / 2\<rfloor> else \<lfloor>r + 1 / 2\<rfloor>)"

subsection \<open>Whole amounts\<close>

lemma strip_zeros_two: "strip_zeros 2 [a, b] = [a, b]"
  by (subst strip_zeros.simps) simp

lemma cents_digits:
  "replicate (Suc 2 - length (nat_to_js (n * 100))) 48 @ nat_to_js (n * 100) = nat_to_js n @ [48, 48]"
proof (cases "n = 0")
  case True
  then show ?thesis by (simp add: nat_to_js_0 numeral_3_eq_3)
next
  case False
  then have "2 \<le> length (nat_to_js n) + 1" by (simp add: Suc_leI)
  with False show ?thesis by (simp add: nat_to_js_mult100)
qed

lemma format_fixed_cents:
  assumes "scaled_round s e 2 = n * 100"
  shows "format_fixed loc 2 2 s e =
           (if 3 + min_grouping loc \<le> length (nat_to_js n)
            then group_digits (group_sep loc) (nat_to_js n) else nat_to_js n) @ [decimal_sep loc, 48, 48]"
  unfolding format_fixed_def Let_def assms cents_digits by (simp add: strip_zeros_two)

lemma locale_currency_nat:
  "locale_currency (mk_num (int n) 0) =
     [36, 0xA0] @ (if 4 \<le> length (nat_to_js n) then group_digits 46 (nat_to_js n) else nat_to_js n)
     @ [44, 48, 48]"
proof -
  obtain m e where me: "mk_num (int n) 0 = Fin m e" "0 \<le> m" "0 \<le> e" "n = nat m * 10 ^ nat e"
    using mk_num_nat by blast
  have "scaled_round (nat m) e 2 = n * 100"
    using me by (simp add: scaled_round_def nat_add_distrib power_add)
  from format_fixed_cents [OF this, of es_AR] me(1,2) show ?thesis
    by (simp add: es_AR_def)
qed

subsection \<open>Rounding\<close>

lemma round_div_nat:
  assumes "0 < (d::nat)"
  shows "(2 * s + d) div (2 * d) = s div d + (if d \<le> 2 * (s mod d) then 1 else 0)"
proof -
  have r: "s mod d < d" using assms by simp
  have "2 * s + d = 2 * (s div d * d + s mod d) + d" by (simp only: div_mult_mod_eq)
  also have "\<dots> = (s div d) * (2 * d) + (2 * (s mod d) + d)"
    using distrib_left [of 2 "s div d * d" "s mod d"] by (simp only: ac_simps)
  finally have e: "2 * s + d = (s div d) * (2 * d) + (2 * (s mod d) + d)" .
  have "(2 * s + d) div (2 * d) = s div d + (2 * (s mod d) + d) div (2 * d)"
    unfolding e by (rule div_mult_self3) (use assms in simp)
  moreover have "(2 * (s mod d) + d) div (2 * d) = (if d \<le> 2 * (s mod d) then 1 else 0)"
  proof (cases "d \<le> 2 * (s mod d)")
    case True
    with r show ?thesis by (simp add: div_nat_eqI)
  next
    case False
    then show ?thesis by (simp add: div_bounds)
  qed
  ultimately show ?thesis by simp
qed

lemma scaled_round_floor:
  "int (scaled_round s e f) = \<lfloor>dec_val (int s) (e + int f) + 1 / 2\<rfloor>"
proof (cases "0 \<le> e + int f")
  case True
  then have "(10::rat) powi (e + int f) = 10 ^ nat (e + int f)"
    by (metis nat_0_le power_int_of_nat)
  then have "dec_val (int s) (e + int f) = of_int (int s * 10 ^ nat (e + int f))"
    by (simp add: dec_val_def)
  moreover have "\<lfloor>of_int z + 1 / 2 :: rat\<rfloor> = z" for z
    by (rule floor_unique) simp_all
  moreover have "int (scaled_round s e f) = int s * 10 ^ nat (e + int f)"
    using True by (simp add: scaled_round_def)
  ultimately show ?thesis by (simp only:)
next
  case False
  define d where "d = (10::nat) ^ nat (- (e + int f))"
  have d0: "0 < d" by (simp add: d_def)
  have "(10::rat) powi (e + int f) = 1 / of_nat d"
    using False by (simp add: d_def power_int_def power_one_over)
  then have "dec_val (int s) (e + int f) + 1 / 2 = of_int (int (2 * s + d)) / of_int (int (2 * d))"
    using d0 by (simp add: dec_val_def field_simps)
  then have "\<lfloor>dec_val (int s) (e + int f) + 1 / 2\<rfloor> = int ((2 * s + d) div (2 * d))"
    by (simp only: floor_divide_of_int_eq zdiv_int)
  moreover have "scaled_round s e f = s div d + (if d \<le> 2 * (s mod d) then 1 else 0)"
    using False by (simp add: scaled_round_def d_def Let_def)
  ultimately show ?thesis by (simp only: round_div_nat [OF d0])
qed

lemma dec_val_scale: "dec_val m e * 10 ^ f = dec_val m (e + int f)"
  by (simp add: dec_val_def power_int_add)

lemma dec_val_sign: "dec_val m e < 0 \<longleftrightarrow> m < 0"
proof -
  have "0 < (10::rat) powi e" by (rule zero_less_power_int) simp
  then have "\<not> (10::rat) powi e < 0" by linarith
  then show ?thesis by (simp add: dec_val_def mult_less_0_iff)
qed

subsection \<open>Digit groups and trailing zeros\<close>

lemma group_ref_short: "length ds \<le> 3 \<Longrightarrow> group_ref sep ds = ds"
proof -
  assume l: "length ds \<le> 3"
  have m: "map (\<lambda>(i, c). (if 0 < i \<and> (length ds - i) mod 3 = 0 then [sep] else []) @ [c]) (enumerate 0 ds)
        = map (\<lambda>(i, c). [c]) (enumerate 0 ds)"
  proof (rule map_cong [OF refl])
    fix x assume "x \<in> set (enumerate 0 ds)"
    moreover obtain i c where "x = (i, c)" by fastforce
    ultimately have x: "x = (i, c)" "i < length ds" by (simp_all add: in_set_enumerate_eq)
    then have "0 < i \<longrightarrow> (length ds - i) mod 3 \<noteq> 0" using l by auto
    with x show "(case x of (i, c) \<Rightarrow> (if 0 < i \<and> (length ds - i) mod 3 = 0 then [sep] else []) @ [c])
                 = (case x of (i, c) \<Rightarrow> [c])" by auto
  qed
  have c: "concat (map (\<lambda>(i, c). [c]) (enumerate n xs)) = xs" for n and xs :: jstr
    by (induction xs arbitrary: n) simp_all
  show ?thesis by (simp only: group_ref_def m c)
qed

lemma group_ref_snoc3:
  assumes "a \<noteq> []" "length b = 3"
  shows "group_ref sep (a @ b) = group_ref sep a @ [sep] @ b"
proof -
  obtain x y z where b: "b = [x, y, z]" using assms(2)
    by (auto simp: numeral_3_eq_3 length_Suc_conv)
  let ?g = "\<lambda>n (i, c). (if 0 < i \<and> (n - i) mod 3 = (0::nat) then [sep] else []) @ [c::cu]"
  have h: "map (?g (length a + 3)) (enumerate 0 a) = map (?g (length a)) (enumerate 0 a)"
  proof (rule map_cong [OF refl])
    fix p assume "p \<in> set (enumerate 0 a)"
    moreover obtain i c where "p = (i, c)" by fastforce
    ultimately have p: "p = (i, c)" "i < length a" by (simp_all add: in_set_enumerate_eq)
    then have "length a + 3 - i = (length a - i) + 3" by simp
    then have "(length a + 3 - i) mod 3 = (length a - i) mod 3" by (simp only: mod_add_self2)
    with p show "?g (length a + 3) p = ?g (length a) p" by simp
  qed
  have t: "concat (map (?g (length a + 3)) (enumerate (length a) b)) = [sep] @ b"
  proof -
    have "0 < length a" using assms(1) by simp
    moreover have "enumerate (length a) b = [(length a, x), (length a + 1, y), (length a + 2, z)]"
      by (simp add: b)
    ultimately show ?thesis by (simp add: b)
  qed
  show ?thesis
    by (simp only: group_ref_def enumerate_append_eq length_append assms(2) map_append concat_append
        h t add_0)
qed

lemma strip_zeros_split: "\<exists>z. fs = strip_zeros minf fs @ replicate z 48"
proof (induction minf fs rule: strip_zeros.induct)
  case (1 minf fs)
  show ?case
  proof (cases "minf < length fs \<and> last fs = 48")
    case True
    then obtain z where z: "butlast fs = strip_zeros minf (butlast fs) @ replicate z 48"
      using "1.IH" by blast
    have "fs = butlast fs @ [48]" using True by (metis append_butlast_last_id list.size(3) not_less_zero)
    also have "\<dots> = strip_zeros minf fs @ replicate (Suc z) 48"
      using True by (subst z) (simp add: strip_zeros.simps [of minf fs] replicate_append_same [symmetric])
    finally show ?thesis ..
  next
    case False
    have "strip_zeros minf fs = fs" by (simp only: strip_zeros.simps [of minf fs] if_not_P [OF False])
    then show ?thesis by (metis append_Nil2 replicate_0)
  qed
qed

lemma strip_zeros_last:
  "minf < length (strip_zeros minf fs) \<Longrightarrow> last (strip_zeros minf fs) \<noteq> 48"
proof (induction minf fs rule: strip_zeros.induct)
  case (1 minf fs)
  then show ?case by (subst (asm) strip_zeros.simps, subst strip_zeros.simps) (auto split: if_splits)
qed

lemma group_digits_filter: "\<not> P sep \<Longrightarrow> filter P (group_digits sep ds) = filter P ds"
proof (induction sep ds rule: group_digits.induct)
  case (1 sep ds)
  show ?case
  proof (cases "length ds \<le> 3")
    case True
    then show ?thesis by (subst group_digits.simps) simp
  next
    case False
    let ?k = "length ds - 3"
    have "filter P (group_digits sep ds) = filter P (group_digits sep (take ?k ds)) @ filter P (drop ?k ds)"
      using False "1.prems" by (subst group_digits.simps) simp
    also have "\<dots> = filter P (take ?k ds @ drop ?k ds)"
      using False "1.IH" "1.prems" by (simp only: filter_append) simp
    finally show ?thesis by simp
  qed
qed

lemma group_digits_set: "set (group_digits sep ds) \<subseteq> insert sep (set ds)"
proof (induction sep ds rule: group_digits.induct)
  case (1 sep ds)
  then show ?case
    by (subst group_digits.simps) (auto dest: in_set_takeD in_set_dropD)
qed

lemma group_digits_Nil: "group_digits sep ds = [] \<longleftrightarrow> ds = []"
  by (subst group_digits.simps) auto

text \<open>C34: \<open>group_digits\<close>, which splits off the last three digits and recurses on
  the rest, inserts a group separator exactly at the positions of the positional
  reference: before each digit, the first excepted, that is a multiple of three digits
  from the end.\<close>

theorem group_digits_positional: "group_digits sep ds = group_ref sep ds"
proof (induction sep ds rule: group_digits.induct)
  case (1 sep ds)
  show ?case
  proof (cases "length ds \<le> 3")
    case True
    then show ?thesis by (simp add: group_digits.simps group_ref_short)
  next
    case False
    then have "take (length ds - 3) ds \<noteq> []" "length (drop (length ds - 3) ds) = 3"
      by (cases ds, simp_all)
    from group_ref_snoc3 [OF this, of sep] False "1.IH" show ?thesis
      by (subst group_digits.simps) simp
  qed
qed

subsection \<open>The shape of the formatted digits\<close>

lemma digits_nat_zeros_append [simp]: "digits_nat (replicate k 48 @ xs) = digits_nat xs"
  by (simp add: digits_nat_append)

lemma strip_zeros_length: "min minf (length fs) \<le> length (strip_zeros minf fs)"
proof (induction minf fs rule: strip_zeros.induct)
  case (1 minf fs)
  then show ?case by (subst strip_zeros.simps) (auto split: if_splits)
qed

lemma format_fixed_shape:
  "\<exists>ip fp. format_fixed es_AR minf maxf s e = ip @ (if fp = [] then [] else 44 # fp)
     \<and> ip \<noteq> [] \<and> (\<forall>c\<in>set ip. is_digit c \<or> c = 46) \<and> (\<forall>c\<in>set fp. is_digit c)
     \<and> length fp \<le> maxf \<and> min minf maxf \<le> length fp \<and> (minf < length fp \<longrightarrow> last fp \<noteq> 48)
     \<and> digits_nat (filter is_digit ip @ fp @ replicate (maxf - length fp) 48) = scaled_round s e maxf"
proof -
  define ds0 where "ds0 = nat_to_js (scaled_round s e maxf)"
  define ds where "ds = replicate (Suc maxf - length ds0) 48 @ ds0"
  define ip where "ip = take (length ds - maxf) ds"
  define fp0 where "fp0 = drop (length ds - maxf) ds"
  define fp where "fp = strip_zeros minf fp0"
  define ip' where "ip' = (if 3 + min_grouping es_AR \<le> length ip then group_digits (group_sep es_AR) ip else ip)"
  have "format_fixed es_AR minf maxf s e = ip' @ (if fp = [] then [] else decimal_sep es_AR # fp)"
    unfolding format_fixed_def Let_def ds0_def [symmetric] ds_def [symmetric] ip_def [symmetric]
      fp0_def [symmetric] fp_def [symmetric] ip'_def [symmetric] by (rule refl)
  then have t: "format_fixed es_AR minf maxf s e = ip' @ (if fp = [] then [] else 44 # fp)"
    by (simp add: es_AR_def)
  have dig: "\<forall>c\<in>set ds. is_digit c" by (auto simp: ds_def ds0_def dest: nat_to_js_digits)
  have len: "Suc maxf \<le> length ds" by (simp add: ds_def)
  have ds: "ds = ip @ fp0" by (simp add: ip_def fp0_def)
  have ip_ne: "ip \<noteq> []" using len by (auto simp: ip_def)
  have lfp0: "length fp0 = maxf" using len by (simp add: fp0_def)
  obtain z where z: "fp0 = fp @ replicate z 48" using strip_zeros_split fp_def by blast
  have lz: "z = maxf - length fp" using lfp0 z by simp
  have ipdig: "\<forall>c\<in>set ip. is_digit c" using dig ds by simp
  have f1: "filter is_digit ip' = ip"
    using ipdig by (simp add: ip'_def group_digits_filter es_AR_def)
  have v: "digits_nat (ip @ fp @ replicate (maxf - length fp) 48) = scaled_round s e maxf"
  proof -
    have "ip @ fp @ replicate (maxf - length fp) 48 = ds" using ds z lz by simp
    then show ?thesis by (simp add: ds_def ds0_def)
  qed
  have "ip' \<noteq> []" using ip_ne by (simp add: ip'_def group_digits_Nil)
  moreover have "\<forall>c\<in>set ip'. is_digit c \<or> c = 46"
    using ipdig group_digits_set [of 46 ip] by (auto simp: ip'_def es_AR_def)
  moreover have "\<forall>c\<in>set fp. is_digit c" using dig ds z by simp
  moreover have "length fp \<le> maxf" using lfp0 z by simp
  moreover have "min minf maxf \<le> length fp" using strip_zeros_length [of minf fp0] lfp0 by (simp add: fp_def)
  moreover have "minf < length fp \<longrightarrow> last fp \<noteq> 48" using strip_zeros_last fp_def by blast
  ultimately show ?thesis using t f1 v by blast
qed

lemma amount_digits_format:
  "amount_digits maxf (format_fixed es_AR minf maxf s e) = Some (scaled_round s e maxf)"
proof -
  obtain ip fp where t: "format_fixed es_AR minf maxf s e = ip @ (if fp = [] then [] else 44 # fp)"
    and ip: "ip \<noteq> []" "\<forall>c\<in>set ip. is_digit c \<or> c = 46" and fp: "\<forall>c\<in>set fp. is_digit c" "length fp \<le> maxf"
    and v: "digits_nat (filter is_digit ip @ fp @ replicate (maxf - length fp) 48) = scaled_round s e maxf"
    using format_fixed_shape [of minf maxf s e] by blast
  have "\<forall>c\<in>set ip. c \<noteq> 44" using ip(2) by auto
  then have "takeWhile (\<lambda>c. c \<noteq> 44) (format_fixed es_AR minf maxf s e) = ip"
    by (simp add: t takeWhile_append2)
  moreover have "drop (Suc (length ip)) (format_fixed es_AR minf maxf s e) = fp" by (simp add: t)
  ultimately show ?thesis
    unfolding amount_digits_def Let_def using ip fp v by (simp add: list_all_iff t)
qed

lemma format_fixed_hd: "format_fixed es_AR minf maxf s e \<noteq> [] \<and> hd (format_fixed es_AR minf maxf s e) \<noteq> 45"
proof -
  obtain ip fp where "format_fixed es_AR minf maxf s e = ip @ (if fp = [] then [] else 44 # fp)"
    "ip \<noteq> []" "\<forall>c\<in>set ip. is_digit c \<or> c = 46"
    using format_fixed_shape [of minf maxf s e] by blast
  then show ?thesis by (cases ip) auto
qed

lemma read_amount_signed:
  assumes "pre = [] \<or> hd pre \<noteq> 45"
  shows "read_amount f pre ((if m < 0 then [45] else []) @ pre @ format_fixed es_AR minf f (nat \<bar>m\<bar>) e)
           = Some (round_half_away (dec_val m e * 10 ^ f))"
proof -
  have r: "int (scaled_round (nat \<bar>m\<bar>) e f) = \<lfloor>\<bar>dec_val m e * 10 ^ f\<bar> + 1 / 2\<rfloor>"
  proof -
    have "0 < (10::rat) powi (e + int f)" by (rule zero_less_power_int) simp
    then have "\<bar>dec_val m e * 10 ^ f\<bar> = dec_val (int (nat \<bar>m\<bar>)) (e + int f)"
      by (simp only: dec_val_scale) (simp add: dec_val_def abs_mult)
    then show ?thesis by (simp only: scaled_round_floor)
  qed
  have sg: "dec_val m e * 10 ^ f < 0 \<longleftrightarrow> m < 0"
    using dec_val_sign [of m "e + int f"] by (simp only: dec_val_scale)
  show ?thesis
  proof (cases "m < 0")
    case True
    then show ?thesis
      using r sg by (simp add: read_amount_def amount_digits_format round_half_away_def)
  next
    case False
    have "pre @ format_fixed es_AR minf f (nat \<bar>m\<bar>) e \<noteq> [] \<and> hd (pre @ format_fixed es_AR minf f (nat \<bar>m\<bar>) e) \<noteq> 45"
      using assms format_fixed_hd [of minf f "nat \<bar>m\<bar>" e] by (cases pre) auto
    with False show ?thesis
      using r sg by (simp add: read_amount_def amount_digits_format round_half_away_def)
  qed
qed

lemma read_currency_nonfinite:
  "read_amount 2 (currency_prefix es_AR) (locale_currency NaN) = None"
  "read_amount 2 (currency_prefix es_AR) (locale_currency (Inf b)) = None"
  by (simp add: read_amount_def amount_digits_def es_AR_def js_def is_digit_def)
     (cases b; simp add: read_amount_def amount_digits_def es_AR_def is_digit_def)

lemma read_number_nonfinite:
  "read_amount 3 [] (locale_number NaN) = None"
  "read_amount 3 [] (locale_number (Inf b)) = None"
  by (simp add: read_amount_def amount_digits_def js_def is_digit_def)
     (cases b; simp add: read_amount_def amount_digits_def is_digit_def)

lemmas read_nonfinite = read_currency_nonfinite read_number_nonfinite

lemma read_currency_Fin:
  "read_amount 2 (currency_prefix es_AR) (locale_currency (Fin m e)) = Some (round_half_away (dec_val m e * 100))"
proof -
  have "locale_currency (Fin m e) =
          (if m < 0 then [45] else []) @ currency_prefix es_AR @ format_fixed es_AR 2 2 (nat \<bar>m\<bar>) e"
    by simp
  moreover have "currency_prefix es_AR = [] \<or> hd (currency_prefix es_AR) \<noteq> 45" by (simp add: es_AR_def)
  ultimately show ?thesis
    using read_amount_signed [where pre = "currency_prefix es_AR" and m = m and f = 2 and minf = 2 and e = e]
    by simp
qed

lemma read_number_Fin:
  "read_amount 3 [] (locale_number (Fin m e)) = Some (round_half_away (dec_val m e * 1000))"
proof -
  have "locale_number (Fin m e) = (if m < 0 then [45] else []) @ [] @ format_fixed es_AR 0 3 (nat \<bar>m\<bar>) e"
    by simp
  then show ?thesis using read_amount_signed [where pre = "[]" and m = m and f = 3 and minf = 0 and e = e] by simp
qed

subsection \<open>Properties of the two formats\<close>

text \<open>C35: every finite amount is shown in the currency format with a nonempty run of
  integer digits and group separators, a decimal comma and exactly two fraction digits,
  after the prefix "$" and the no-break space, with a leading minus for a negative
  amount.\<close>

theorem currency_two_decimals:
  "\<exists>ip d1 d2. locale_currency (Fin m e) = (if m < 0 then [45] else []) @ [36, 0xA0] @ ip @ [44, d1, d2]
     \<and> ip \<noteq> [] \<and> list_all (\<lambda>c. is_digit c \<or> c = 46) ip \<and> is_digit d1 \<and> is_digit d2"
proof -
  obtain ip fp where f: "format_fixed es_AR 2 2 (nat \<bar>m\<bar>) e = ip @ (if fp = [] then [] else 44 # fp)"
    and ip: "ip \<noteq> []" "\<forall>c\<in>set ip. is_digit c \<or> c = 46"
    and fp: "\<forall>c\<in>set fp. is_digit c" "length fp = 2"
    using format_fixed_shape [of 2 2 "nat \<bar>m\<bar>" e] by fastforce
  from fp(2) obtain d1 d2 where d: "fp = [d1, d2]" by (auto simp: numeral_2_eq_2 length_Suc_conv)
  have "locale_currency (Fin m e) = (if m < 0 then [45] else []) @ [36, 0xA0] @ format_fixed es_AR 2 2 (nat \<bar>m\<bar>) e"
    by (simp add: es_AR_def)
  with f ip fp(1) d show ?thesis
    by (intro exI [of _ ip] exI [of _ d1] exI [of _ d2]) (simp add: list_all_iff)
qed

text \<open>C36: a finite number (the unit price and the subtotal of a row) is shown with
  integer digits and group separators, then, only when the rounded value has a fraction,
  a decimal comma and one to three fraction digits, the last of them not zero.\<close>

theorem number_fraction_digits:
  "\<exists>ip fp. locale_number (Fin m e) = (if m < 0 then [45] else []) @ ip @ (if fp = [] then [] else 44 # fp)
     \<and> ip \<noteq> [] \<and> list_all (\<lambda>c. is_digit c \<or> c = 46) ip \<and> list_all is_digit fp
     \<and> length fp \<le> 3 \<and> (fp = [] \<or> 49 \<le> unat (last fp))"
proof -
  obtain ip fp where f: "format_fixed es_AR 0 3 (nat \<bar>m\<bar>) e = ip @ (if fp = [] then [] else 44 # fp)"
    and ip: "ip \<noteq> []" "\<forall>c\<in>set ip. is_digit c \<or> c = 46"
    and fp: "\<forall>c\<in>set fp. is_digit c" "length fp \<le> 3" "0 < length fp \<longrightarrow> last fp \<noteq> 48"
    using format_fixed_shape [of 0 3 "nat \<bar>m\<bar>" e] by fastforce
  have "fp = [] \<or> 49 \<le> unat (last fp)"
  proof (cases "fp = []")
    case False
    then have "is_digit (last fp)" "last fp \<noteq> 48" using fp by simp_all
    then have "48 \<le> unat (last fp)" "unat (last fp) \<noteq> 48"
      by (auto simp: is_digit_def word_unat_eq_iff)
    then show ?thesis by simp
  qed simp
  moreover have "locale_number (Fin m e) = (if m < 0 then [45] else []) @ format_fixed es_AR 0 3 (nat \<bar>m\<bar>) e"
    by simp
  ultimately show ?thesis using f ip fp
    by (intro exI [of _ ip] exI [of _ fp]) (simp add: list_all_iff)
qed

lemma locale_number_one_fraction_digit: "locale_number (Fin 105 (-1)) = js ''10,5''"
  by code_simp

text \<open>C37: the currency format refines rounding to the cent: read back, the text of
  a finite amount \<open>x\<close> is \<open>x \<cdot> 100\<close> rounded to an integer, halves away from zero;
  NaN and the infinities are not read as an amount.\<close>

theorem currency_reads_cents:
  "read_amount 2 (currency_prefix es_AR) (locale_currency x) =
     (case x of Fin m e \<Rightarrow> Some (round_half_away (dec_val m e * 100)) | _ \<Rightarrow> None)"
  by (cases x) (simp_all del: locale_currency.simps add: read_currency_Fin read_nonfinite)

text \<open>C38: the decimal format refines rounding to three fraction digits: read back,
  the text of a finite number \<open>x\<close> is \<open>x \<cdot> 1000\<close> rounded, halves away from zero;
  the trailing zeros it drops stand for zeros.\<close>

theorem number_reads_rounded:
  "read_amount 3 [] (locale_number x) =
     (case x of Fin m e \<Rightarrow> Some (round_half_away (dec_val m e * 1000)) | _ \<Rightarrow> None)"
  by (cases x) (simp_all del: locale_number.simps add: read_number_Fin read_nonfinite)

end
