(* ===== verification/JsValue.thy ===== *)
theory JsValue
  imports Json NumParse Intl
begin

text \<open>
  The values the row rendering of \<^verbatim>\<open>src/checkout_web/script.js\<close> (lines 47 to 60)
  touches are the cart's JSON values and \<^verbatim>\<open>undefined\<close> (\<open>jval\<close>). An object
  from \<^verbatim>\<open>JSON.parse\<close> has only data properties and inherits from
  \<^verbatim>\<open>Object.prototype\<close>; an own property is never callable. Hence:
  \<^item> \<open>get_prop\<close>, the property read \<^verbatim>\<open>item.name\<close> and its kin: \<^verbatim>\<open>null\<close> throws
    a TypeError, an object yields its own property (the last of duplicated keys)
    or \<^verbatim>\<open>undefined\<close>, and any other value \<^verbatim>\<open>undefined\<close> (the keys read are
    neither indices, nor \<^verbatim>\<open>length\<close>, nor properties of a prototype);
  \<^item> \<open>to_string\<close>, ToString as a template literal applies it: an array is joined
    with commas, \<^verbatim>\<open>null\<close> elements giving the empty string; an object is
    \<^verbatim>\<open>[object Object]\<close> unless it has an own \<^verbatim>\<open>toString\<close>, which is not callable,
    so that OrdinaryToPrimitive throws;
  \<^item> \<open>to_number\<close>, ToNumeric as the multiplication applies it;
  \<^item> \<open>to_locale\<close>, the call \<^verbatim>\<open>v.toLocaleString("es-AR")\<close>: a number is formatted
    by \<open>locale_number\<close>, a string or a boolean converts to itself, an array joins
    its elements' conversions with commas, an object goes through
    \<^verbatim>\<open>Object.prototype.toLocaleString\<close>, and \<^verbatim>\<open>null\<close> or \<^verbatim>\<open>undefined\<close> throws.
\<close>

datatype jval =
    Undefined
  | V json

fun get_prop :: "json \<Rightarrow> jstr \<Rightarrow> js_error + jval" where
  "get_prop JNull k = Inl TypeError"
| "get_prop (JObj kvs) k = Inr (case obj_get kvs k of Some v \<Rightarrow> V v | None \<Rightarrow> Undefined)"
| "get_prop _ k = Inr Undefined"

definition has_own :: "(jstr \<times> json) list \<Rightarrow> jstr \<Rightarrow> bool" where
  "has_own kvs k \<longleftrightarrow> obj_get kvs k \<noteq> None"

fun to_string :: "json \<Rightarrow> js_error + jstr"
  and join_elems :: "json list \<Rightarrow> js_error + jstr" where
  "to_string JNull = Inr (js ''null'')"
| "to_string (JBool b) = Inr (if b then js ''true'' else js ''false'')"
| "to_string (JNum x) = Inr (num_to_string x)"
| "to_string (JStr s) = Inr s"
| "to_string (JArr vs) = join_elems vs"
| "to_string (JObj kvs) =
     (if has_own kvs (js ''toString'') then Inl TypeError else Inr (js ''[object Object]''))"
| "join_elems [] = Inr []"
| "join_elems (v # vs) =
     throw_bind (case v of JNull \<Rightarrow> Inr [] | _ \<Rightarrow> to_string v) (\<lambda>a.
       if vs = [] then Inr a
       else throw_bind (join_elems vs) (\<lambda>b. Inr (a @ [44] @ b)))"

fun to_number :: "json \<Rightarrow> js_error + jsnum" where
  "to_number JNull = Inr (Fin 0 0)"
| "to_number (JBool b) = Inr (Fin (if b then 1 else 0) 0)"
| "to_number (JNum x) = Inr x"
| "to_number (JStr s) = Inr (string_to_number s)"
| "to_number (JArr vs) = throw_bind (join_elems vs) (\<lambda>s. Inr (string_to_number s))"
| "to_number (JObj kvs) = (if has_own kvs (js ''toString'') then Inl TypeError else Inr NaN)"

fun to_locale :: "json \<Rightarrow> js_error + jstr"
  and locale_elems :: "json list \<Rightarrow> js_error + jstr" where
  "to_locale JNull = Inl TypeError"
| "to_locale (JBool b) = Inr (if b then js ''true'' else js ''false'')"
| "to_locale (JNum x) = Inr (locale_number x)"
| "to_locale (JStr s) = Inr s"
| "to_locale (JArr vs) = locale_elems vs"
| "to_locale (JObj kvs) =
     (if has_own kvs (js ''toLocaleString'') \<or> has_own kvs (js ''toString'') then Inl TypeError
      else Inr (js ''[object Object]''))"
| "locale_elems [] = Inr []"
| "locale_elems (v # vs) =
     throw_bind (case v of JNull \<Rightarrow> Inr [] | _ \<Rightarrow> to_locale v) (\<lambda>a.
       if vs = [] then Inr a
       else throw_bind (locale_elems vs) (\<lambda>b. Inr (a @ [44] @ b)))"

fun val_to_string :: "jval \<Rightarrow> js_error + jstr" where
  "val_to_string Undefined = Inr (js ''undefined'')"
| "val_to_string (V v) = to_string v"

fun val_to_number :: "jval \<Rightarrow> js_error + jsnum" where
  "val_to_number Undefined = Inr NaN"
| "val_to_number (V v) = to_number v"

fun val_to_locale :: "jval \<Rightarrow> js_error + jstr" where
  "val_to_locale Undefined = Inl TypeError"
| "val_to_locale (V v) = to_locale v"

end
