(* ===== verification/UrlParams.thy ===== *)
theory UrlParams
  imports Prelude
begin

text \<open>
  Line 2 of \<^verbatim>\<open>src/checkout_web/script.js\<close>,
  \<^verbatim>\<open>new URLSearchParams(window.location.search)\<close>: the constructor drops a leading
  \<^verbatim>\<open>?\<close>, converts the string to a scalar value string (a lone surrogate becomes
  U+FFFD), encodes it in UTF-8 and runs the WHATWG
  \<^verbatim>\<open>application/x-www-form-urlencoded\<close> parser: split the bytes on \<^verbatim>\<open>&\<close>,
  skip empty pieces, split each at its first \<^verbatim>\<open>=\<close>, replace \<^verbatim>\<open>+\<close> by a
  space, percent-decode, and decode UTF-8 without BOM, an invalid sequence giving
  U+FFFD (the WHATWG Encoding decoder, \<open>utf8_dec\<close>). The entries keep their
  order and duplicates; \<^verbatim>\<open>params.get\<close> returns the first.
\<close>

subsection \<open>Strings to UTF-8\<close>

definition is_high :: "cu \<Rightarrow> bool" where
  "is_high c \<longleftrightarrow> 0xD800 \<le> unat c \<and> unat c \<le> 0xDBFF"

definition is_low :: "cu \<Rightarrow> bool" where
  "is_low c \<longleftrightarrow> 0xDC00 \<le> unat c \<and> unat c \<le> 0xDFFF"

text \<open>The code points of a string, as the conversion to a scalar value string
  reads them: a surrogate pair is one code point, a lone surrogate is U+FFFD.\<close>

fun code_points :: "jstr \<Rightarrow> nat list" where
  "code_points [] = []"
| "code_points (c # cs) =
     (if is_high c then
        (case cs of
           d # ds \<Rightarrow>
             if is_low d then (0x10000 + (unat c - 0xD800) * 0x400 + (unat d - 0xDC00)) # code_points ds
             else 0xFFFD # code_points cs
         | [] \<Rightarrow> [0xFFFD])
      else if is_low c then 0xFFFD # code_points cs
      else unat c # code_points cs)"

definition utf8_encode_cp :: "nat \<Rightarrow> byte list" where
  "utf8_encode_cp n =
     (if n < 0x80 then [of_nat n]
      else if n < 0x800 then [of_nat (0xC0 + n div 64), of_nat (0x80 + n mod 64)]
      else if n < 0x10000 then
        [of_nat (0xE0 + n div 4096), of_nat (0x80 + n div 64 mod 64), of_nat (0x80 + n mod 64)]
      else [of_nat (0xF0 + n div 262144), of_nat (0x80 + n div 4096 mod 64),
            of_nat (0x80 + n div 64 mod 64), of_nat (0x80 + n mod 64)])"

definition utf8_encode :: "jstr \<Rightarrow> byte list" where
  "utf8_encode s = concat (map utf8_encode_cp (code_points s))"

subsection \<open>The form-urlencoded parser\<close>

fun split_bytes :: "byte \<Rightarrow> byte list \<Rightarrow> byte list list" where
  "split_bytes d [] = [[]]"
| "split_bytes d (b # bs) =
     (if b = d then [] # split_bytes d bs
      else (case split_bytes d bs of p # ps \<Rightarrow> (b # p) # ps | [] \<Rightarrow> [[b]]))"

definition hex_nibble :: "byte \<Rightarrow> nat option" where
  "hex_nibble b =
     (let n = unat b in
      if 48 \<le> n \<and> n \<le> 57 then Some (n - 48)
      else if 65 \<le> n \<and> n \<le> 70 then Some (n - 55)
      else if 97 \<le> n \<and> n \<le> 102 then Some (n - 87)
      else None)"

fun percent_decode :: "byte list \<Rightarrow> byte list" where
  "percent_decode [] = []"
| "percent_decode (b # bs) =
     (if b = 0x25 then
        (case bs of
           h # l # rest \<Rightarrow>
             (case (hex_nibble h, hex_nibble l) of
                (Some x, Some y) \<Rightarrow> of_nat (16 * x + y) # percent_decode rest
              | _ \<Rightarrow> b # percent_decode bs)
         | _ \<Rightarrow> b # percent_decode bs)
      else b # percent_decode bs)"

text \<open>The UTF-8 decoder of the Encoding standard. The state is the number of
  continuation bytes still needed, the code point so far, and the bounds of the
  next byte. A byte outside the bounds ends the sequence with U+FFFD and is read
  again; the end of input inside a sequence gives U+FFFD.\<close>

function utf8_dec :: "nat \<Rightarrow> nat \<Rightarrow> nat \<Rightarrow> nat \<Rightarrow> byte list \<Rightarrow> nat list" where
  "utf8_dec 0 cp lo hi [] = []"
| "utf8_dec (Suc k) cp lo hi [] = [0xFFFD]"
| "utf8_dec 0 cp lo hi (b # bs) =
     (let n = unat b in
      if n \<le> 0x7F then n # utf8_dec 0 0 0x80 0xBF bs
      else if 0xC2 \<le> n \<and> n \<le> 0xDF then utf8_dec 1 (n mod 32) 0x80 0xBF bs
      else if 0xE0 \<le> n \<and> n \<le> 0xEF then
        utf8_dec 2 (n mod 16) (if n = 0xE0 then 0xA0 else 0x80) (if n = 0xED then 0x9F else 0xBF) bs
      else if 0xF0 \<le> n \<and> n \<le> 0xF4 then
        utf8_dec 3 (n mod 8) (if n = 0xF0 then 0x90 else 0x80) (if n = 0xF4 then 0x8F else 0xBF) bs
      else 0xFFFD # utf8_dec 0 0 0x80 0xBF bs)"
| "utf8_dec (Suc k) cp lo hi (b # bs) =
     (let n = unat b in
      if n < lo \<or> hi < n then 0xFFFD # utf8_dec 0 0 0x80 0xBF (b # bs)
      else if k = 0 then (cp * 64 + n mod 64) # utf8_dec 0 0 0x80 0xBF bs
      else utf8_dec k (cp * 64 + n mod 64) 0x80 0xBF bs)"
  by pat_completeness auto
termination
  by (relation "measure (\<lambda>(k, cp, lo, hi, bs). 4 * length bs + k)") auto

definition utf16_of :: "nat \<Rightarrow> jstr" where
  "utf16_of n =
     (if n < 0x10000 then [of_nat n]
      else [of_nat (0xD800 + (n - 0x10000) div 0x400), of_nat (0xDC00 + (n - 0x10000) mod 0x400)])"

definition decode_component :: "byte list \<Rightarrow> jstr" where
  "decode_component bs =
     concat (map utf16_of (utf8_dec 0 0 0x80 0xBF (percent_decode (replace_all 0x2B 0x20 bs))))"

definition form_entry :: "byte list \<Rightarrow> (jstr \<times> jstr) list" where
  "form_entry bs =
     (if bs = [] then []
      else if 0x3D \<in> set bs then
        [(decode_component (takeWhile (\<lambda>b. b \<noteq> 0x3D) bs),
          decode_component (tl (dropWhile (\<lambda>b. b \<noteq> 0x3D) bs)))]
      else [(decode_component bs, [])])"

definition form_parse :: "byte list \<Rightarrow> (jstr \<times> jstr) list" where
  "form_parse bs = concat (map form_entry (split_bytes 0x26 bs))"

definition url_params :: "jstr \<Rightarrow> (jstr \<times> jstr) list" where
  "url_params search =
     form_parse (utf8_encode (case search of c # cs \<Rightarrow> if c = 63 then cs else search | [] \<Rightarrow> []))"

subsection \<open>Scalar values and well-formed strings\<close>

definition scalar :: "nat \<Rightarrow> bool" where
  "scalar n \<longleftrightarrow> n < 0x110000 \<and> \<not> (0xD800 \<le> n \<and> n \<le> 0xDFFF)"

text \<open>A string in which every surrogate is paired.\<close>

fun wf_utf16 :: "jstr \<Rightarrow> bool" where
  "wf_utf16 [] = True"
| "wf_utf16 (c # cs) =
     (if is_high c then (case cs of d # ds \<Rightarrow> is_low d \<and> wf_utf16 ds | [] \<Rightarrow> False)
      else \<not> is_low c \<and> wf_utf16 cs)"

text \<open>The scalar value string of a string: what the conversion to
  \<^verbatim>\<open>USVString\<close> makes of it.\<close>

definition usv_string :: "jstr \<Rightarrow> jstr" where
  "usv_string s = concat (map utf16_of (code_points s))"

subsection \<open>The producer of the link\<close>

text \<open>The query string of the checkout link as its producer builds it (spec section 6),
  with the \<^verbatim>\<open>quote_plus\<close> convention of form encoding: unreserved ASCII
  bytes kept, space as \<^verbatim>\<open>+\<close>, every other byte of the UTF-8 encoding as
  \<^verbatim>\<open>%XX\<close> in upper case, entries joined with \<^verbatim>\<open>&\<close>.\<close>

definition unreserved :: "byte \<Rightarrow> bool" where
  "unreserved b \<longleftrightarrow>
     (let n = unat b in
      (48 \<le> n \<and> n \<le> 57) \<or> (65 \<le> n \<and> n \<le> 90) \<or> (97 \<le> n \<and> n \<le> 122)
      \<or> n = 45 \<or> n = 46 \<or> n = 95 \<or> n = 126)"

definition hex_upper :: "nat \<Rightarrow> byte" where
  "hex_upper d = of_nat (if d < 10 then 48 + d else 55 + d)"

definition quote_byte :: "byte \<Rightarrow> byte list" where
  "quote_byte b =
     (if unreserved b then [b] else if b = 0x20 then [0x2B]
      else [0x25, hex_upper (unat b div 16), hex_upper (unat b mod 16)])"

definition quote_plus :: "jstr \<Rightarrow> byte list" where
  "quote_plus s = concat (map quote_byte (utf8_encode s))"

fun join_amp :: "byte list list \<Rightarrow> byte list" where
  "join_amp [] = []"
| "join_amp [p] = p"
| "join_amp (p # ps) = p @ [0x26] @ join_amp ps"

definition urlencode :: "(jstr \<times> jstr) list \<Rightarrow> byte list" where
  "urlencode ps = join_amp (map (\<lambda>(k, v). quote_plus k @ [0x3D] @ quote_plus v) ps)"

definition query_string :: "(jstr \<times> jstr) list \<Rightarrow> jstr" where
  "query_string ps = 63 # map ucast (urlencode ps)"

subsection \<open>UTF-8: the decoder inverts the encoder\<close>

lemma utf8_dec_cont:
  assumes "x < 64" "lo \<le> 0x80 + x" "0x80 + x \<le> hi"
  shows "utf8_dec (Suc k) cp lo hi (of_nat (0x80 + x) # rest) =
           (if k = 0 then (cp * 64 + x) # utf8_dec 0 0 0x80 0xBF rest
            else utf8_dec k (cp * 64 + x) 0x80 0xBF rest)"
proof -
  have u: "unat (of_nat (0x80 + x) :: byte) = 0x80 + x" by (rule unat_byte_of_nat) (use assms in simp)
  have m: "(0x80 + x) mod 64 = x" by (rule mod_add_multiple) (use assms in simp_all)
  show ?thesis using assms by (simp only: utf8_dec.simps Let_def u m) simp
qed

lemma utf8_roundtrip_1:
  assumes "n < 0x80"
  shows "utf8_dec 0 0 0x80 0xBF (utf8_encode_cp n @ rest) = n # utf8_dec 0 0 0x80 0xBF rest"
proof -
  have u: "unat (of_nat n :: byte) = n" by (rule unat_byte_of_nat) (use assms in simp)
  show ?thesis using assms by (simp add: utf8_encode_cp_def Let_def u)
qed

lemma utf8_roundtrip_2:
  assumes "0x80 \<le> n" "n < 0x800"
  shows "utf8_dec 0 0 0x80 0xBF (utf8_encode_cp n @ rest) = n # utf8_dec 0 0 0x80 0xBF rest"
proof -
  define a c where "a = n div 64" "c = n mod 64"
  have e: "utf8_encode_cp n = [of_nat (0xC0 + a), of_nat (0x80 + c)]"
    using assms by (simp add: utf8_encode_cp_def a_c_def del: of_nat_add)
  have a: "2 \<le> a" "a < 32" "c < 64" using assms by (auto simp: a_c_def)
  have u: "unat (of_nat (0xC0 + a) :: byte) = 0xC0 + a" by (rule unat_byte_of_nat) (use a in simp)
  have m: "(0xC0 + a) mod 32 = a" by (rule mod_add_multiple) (use a in simp_all)
  have "utf8_dec 0 0 0x80 0xBF (utf8_encode_cp n @ rest) =
      utf8_dec (Suc 0) a 0x80 0xBF (of_nat (0x80 + c) # rest)"
    unfolding e using a by (simp add: Let_def u m del: of_nat_add)
  also have "\<dots> = (a * 64 + c) # utf8_dec 0 0 0x80 0xBF rest"
    by (subst utf8_dec_cont) (use a in simp_all)
  finally show ?thesis by (simp add: a_c_def)
qed

lemma digits_4096: "(n::nat) div 4096 * 4096 + n div 64 mod 64 * 64 + n mod 64 = n"
proof -
  have "n div 4096 = n div 64 div 64" by (simp add: div_mult2_eq [symmetric])
  then have "n div 64 = n div 4096 * 64 + n div 64 mod 64" by simp
  then show ?thesis using div_mult_mod_eq [of n 64] by linarith
qed

lemma enc3:
  assumes "0x800 \<le> n" "n < 0x10000"
  shows "utf8_encode_cp n = [of_nat (0xE0 + n div 4096), of_nat (0x80 + n div 64 mod 64), of_nat (0x80 + n mod 64)]"
  using assms by (simp add: utf8_encode_cp_def del: of_nat_add)

lemma lo3: "0x800 \<le> n \<Longrightarrow> n div 4096 = 0 \<Longrightarrow> 32 \<le> n div 64 mod (64::nat)"
proof -
  assume a: "0x800 \<le> n" "n div 4096 = 0"
  then have "n < 4096" by simp
  then have "n div 64 < 64" "32 \<le> n div 64" using a(1) by (simp_all add: div_bounds)
  then show ?thesis by simp
qed

lemma hi3: "\<not> (0xD800 \<le> n \<and> n \<le> 0xDFFF) \<Longrightarrow> n div 4096 = 13 \<Longrightarrow> n div 64 mod 64 < (32::nat)"
proof -
  assume a: "\<not> (0xD800 \<le> n \<and> n \<le> 0xDFFF)" "n div 4096 = 13"
  then have "13 \<le> n div 4096" "n div 4096 < 14" by simp_all
  then have "53248 \<le> n" "n < 55296" using a(1) by (simp_all add: div_bounds)
  then have q: "832 \<le> n div 64" "n div 64 < 864" by (simp_all add: div_bounds)
  then have "n div 64 = 832 + (n div 64 - 832)" by simp
  moreover have "(832 + (n div 64 - 832)) mod 64 = n div 64 - 832"
    by (rule mod_add_multiple) (use q in simp_all)
  ultimately show ?thesis using q by simp
qed

lemma utf8_dec_lead3:
  assumes "a < 16"
  shows "utf8_dec 0 cp lo hi (of_nat (0xE0 + a) # rest) =
           utf8_dec (Suc (Suc 0)) a (if a = 0 then 0xA0 else 0x80) (if a = 13 then 0x9F else 0xBF) rest"
proof -
  have u: "unat (of_nat (0xE0 + a) :: byte) = 0xE0 + a" by (rule unat_byte_of_nat) (use assms in simp)
  have m: "(0xE0 + a) mod 16 = a" by (rule mod_add_multiple) (use assms in simp_all)
  show ?thesis using assms by (simp add: Let_def u m numeral_2_eq_2 del: of_nat_add)
qed

lemma utf8_roundtrip_3:
  assumes "0x800 \<le> n" "n < 0x10000" "\<not> (0xD800 \<le> n \<and> n \<le> 0xDFFF)"
  shows "utf8_dec 0 0 0x80 0xBF (utf8_encode_cp n @ rest) = n # utf8_dec 0 0 0x80 0xBF rest"
proof -
  define a b c where "a = n div 4096" "b = n div 64 mod 64" "c = n mod 64"
  have e: "utf8_encode_cp n = [of_nat (0xE0 + a), of_nat (0x80 + b), of_nat (0x80 + c)]"
    using enc3 [OF assms(1,2)] by (simp only: a_b_c_def)
  have r: "a < 16" "b < 64" "c < 64" using assms(2) by (simp_all add: a_b_c_def div_bounds)
  have lo: "a = 0 \<Longrightarrow> 32 \<le> b" using lo3 [OF assms(1)] by (simp add: a_b_c_def)
  have hi: "a = 13 \<Longrightarrow> b < 32" using hi3 [OF assms(3)] by (simp add: a_b_c_def)
  have "utf8_dec 0 0 0x80 0xBF (utf8_encode_cp n @ rest) =
      utf8_dec (Suc (Suc 0)) a (if a = 0 then 0xA0 else 0x80) (if a = 13 then 0x9F else 0xBF)
        (of_nat (0x80 + b) # of_nat (0x80 + c) # rest)"
    unfolding e by (simp only: append_Cons append_Nil utf8_dec_lead3 [OF r(1)])
  also have "\<dots> = utf8_dec (Suc 0) (a * 64 + b) 0x80 0xBF (of_nat (0x80 + c) # rest)"
    by (subst utf8_dec_cont) (use r lo hi in auto)
  also have "\<dots> = ((a * 64 + b) * 64 + c) # utf8_dec 0 0 0x80 0xBF rest"
    by (subst utf8_dec_cont) (use r in simp_all)
  finally show ?thesis using digits_4096 [of n] by (simp add: a_b_c_def algebra_simps)
qed

lemma enc4:
  assumes "0x10000 \<le> n"
  shows "utf8_encode_cp n = [of_nat (0xF0 + n div 262144), of_nat (0x80 + n div 4096 mod 64),
           of_nat (0x80 + n div 64 mod 64), of_nat (0x80 + n mod 64)]"
  using assms by (simp add: utf8_encode_cp_def del: of_nat_add)

lemma lo4: "0x10000 \<le> n \<Longrightarrow> n div 262144 = 0 \<Longrightarrow> 16 \<le> n div 4096 mod (64::nat)"
proof -
  assume a: "0x10000 \<le> n" "n div 262144 = 0"
  then have "n < 262144" by simp
  then have "n div 4096 < 64" "16 \<le> n div 4096" using a(1) by (simp_all add: div_bounds)
  then show ?thesis by simp
qed

lemma hi4: "n < 0x110000 \<Longrightarrow> n div 262144 = 4 \<Longrightarrow> n div 4096 mod 64 < (16::nat)"
proof -
  assume a: "n < 0x110000" "n div 262144 = 4"
  then have "4 \<le> n div 262144" by simp
  then have "1048576 \<le> n" by (simp add: div_bounds)
  then have q: "256 \<le> n div 4096" "n div 4096 < 272" using a(1) by (simp_all add: div_bounds)
  then have "n div 4096 = 256 + (n div 4096 - 256)" by simp
  moreover have "(256 + (n div 4096 - 256)) mod 64 = n div 4096 - 256"
    by (rule mod_add_multiple) (use q in simp_all)
  ultimately show ?thesis using q by simp
qed

lemma digits_262144:
  "(n::nat) div 262144 * 262144 + n div 4096 mod 64 * 4096 + n div 64 mod 64 * 64 + n mod 64 = n"
proof -
  have "n div 262144 = n div 4096 div 64" by (simp add: div_mult2_eq [symmetric])
  then have "n div 4096 = n div 262144 * 64 + n div 4096 mod 64" by simp
  then show ?thesis using digits_4096 [of n] by linarith
qed

lemma utf8_dec_lead4:
  assumes "a < 5"
  shows "utf8_dec 0 cp lo hi (of_nat (0xF0 + a) # rest) =
           utf8_dec (Suc (Suc (Suc 0))) a (if a = 0 then 0x90 else 0x80) (if a = 4 then 0x8F else 0xBF) rest"
proof -
  have u: "unat (of_nat (0xF0 + a) :: byte) = 0xF0 + a" by (rule unat_byte_of_nat) (use assms in simp)
  have m: "(0xF0 + a) mod 8 = a" by (rule mod_add_multiple) (use assms in simp_all)
  show ?thesis using assms by (simp add: Let_def u m numeral_3_eq_3 del: of_nat_add)
qed

lemma utf8_roundtrip_4:
  assumes "0x10000 \<le> n" "n < 0x110000"
  shows "utf8_dec 0 0 0x80 0xBF (utf8_encode_cp n @ rest) = n # utf8_dec 0 0 0x80 0xBF rest"
proof -
  define a b c d where "a = n div 262144" "b = n div 4096 mod 64" "c = n div 64 mod 64" "d = n mod 64"
  have e: "utf8_encode_cp n = [of_nat (0xF0 + a), of_nat (0x80 + b), of_nat (0x80 + c), of_nat (0x80 + d)]"
    using enc4 [OF assms(1)] by (simp only: a_b_c_d_def)
  have r: "a < 5" "b < 64" "c < 64" "d < 64" using assms(2) by (simp_all add: a_b_c_d_def div_bounds)
  have lo: "a = 0 \<Longrightarrow> 16 \<le> b" using lo4 [OF assms(1)] by (simp add: a_b_c_d_def)
  have hi: "a = 4 \<Longrightarrow> b < 16" using hi4 [OF assms(2)] by (simp add: a_b_c_d_def)
  have "utf8_dec 0 0 0x80 0xBF (utf8_encode_cp n @ rest) =
      utf8_dec (Suc (Suc (Suc 0))) a (if a = 0 then 0x90 else 0x80) (if a = 4 then 0x8F else 0xBF)
        (of_nat (0x80 + b) # of_nat (0x80 + c) # of_nat (0x80 + d) # rest)"
    unfolding e by (simp only: append_Cons append_Nil utf8_dec_lead4 [OF r(1)])
  also have "\<dots> = utf8_dec (Suc (Suc 0)) (a * 64 + b) 0x80 0xBF (of_nat (0x80 + c) # of_nat (0x80 + d) # rest)"
    by (subst utf8_dec_cont) (use r lo hi in auto)
  also have "\<dots> = utf8_dec (Suc 0) ((a * 64 + b) * 64 + c) 0x80 0xBF (of_nat (0x80 + d) # rest)"
    by (subst utf8_dec_cont) (use r in simp_all)
  also have "\<dots> = (((a * 64 + b) * 64 + c) * 64 + d) # utf8_dec 0 0 0x80 0xBF rest"
    by (subst utf8_dec_cont) (use r in simp_all)
  finally show ?thesis using digits_262144 [of n] by (simp add: a_b_c_d_def algebra_simps)
qed

lemma utf8_roundtrip_cp:
  assumes "scalar n"
  shows "utf8_dec 0 0 0x80 0xBF (utf8_encode_cp n @ rest) = n # utf8_dec 0 0 0x80 0xBF rest"
proof -
  consider "n < 0x80" | "0x80 \<le> n" "n < 0x800" | "0x800 \<le> n" "n < 0x10000" | "0x10000 \<le> n"
    by linarith
  then show ?thesis
  proof cases
    case 1
    then show ?thesis by (rule utf8_roundtrip_1)
  next
    case 2
    then show ?thesis by (rule utf8_roundtrip_2)
  next
    case 3
    then show ?thesis using assms by (intro utf8_roundtrip_3) (simp_all add: scalar_def)
  next
    case 4
    then show ?thesis using assms by (intro utf8_roundtrip_4) (simp_all add: scalar_def)
  qed
qed

lemma utf8_roundtrip:
  "\<forall>n \<in> set cps. scalar n \<Longrightarrow> utf8_dec 0 0 0x80 0xBF (concat (map utf8_encode_cp cps)) = cps"
  by (induction cps) (simp_all add: utf8_roundtrip_cp)

lemma scalar_fffd [simp]: "scalar 0xFFFD"
  by (simp add: scalar_def)

lemma pair_bounds:
  assumes "0xD800 \<le> h" "h \<le> (0xDBFF::nat)" "0xDC00 \<le> l" "l \<le> (0xDFFF::nat)"
  shows "0x10000 \<le> 0x10000 + (h - 0xD800) * 0x400 + (l - 0xDC00)"
    and "0x10000 + (h - 0xD800) * 0x400 + (l - 0xDC00) < 0x110000"
  using assms by linarith+

lemma code_points_scalar: "n \<in> set (code_points s) \<Longrightarrow> scalar n"
proof (induction s rule: code_points.induct)
  case 1
  then show ?case by simp
next
  case (2 c cs)
  note IH = "2.IH"
  show ?case
  proof (cases "is_high c")
    case hi: True
    show ?thesis
    proof (cases cs)
      case Nil
      then show ?thesis using "2.prems" hi by simp
    next
      case (Cons d ds)
      show ?thesis
      proof (cases "is_low d")
        case True
        have b: "0xD800 \<le> unat c" "unat c \<le> 0xDBFF" "0xDC00 \<le> unat d" "unat d \<le> 0xDFFF"
          using hi True by (simp_all add: is_high_def is_low_def)
        show ?thesis using "2.prems" hi Cons True IH(1) [OF hi Cons True] pair_bounds [OF b]
          by (auto simp: scalar_def)
      next
        case False
        show ?thesis using "2.prems" hi Cons False IH(2) [OF hi Cons False] by auto
      qed
    qed
  next
    case nh: False
    have c: "unat c < 65536" using unsigned_less [of c] by simp
    show ?thesis
    proof (cases "is_low c")
      case True
      then show ?thesis using "2.prems" nh IH(3) [OF nh True] by auto
    next
      case False
      then show ?thesis using "2.prems" nh c IH(4) [OF nh False]
        by (auto simp: scalar_def is_high_def is_low_def)
    qed
  qed
qed

lemma utf16_of_pair:
  assumes "0xD800 \<le> unat c" "unat c \<le> 0xDBFF" "0xDC00 \<le> unat d" "unat d \<le> 0xDFFF"
  shows "utf16_of (0x10000 + (unat c - 0xD800) * 0x400 + (unat d - 0xDC00)) = [c, d]"
proof -
  define h l where "h = unat c - 0xD800" "l = unat d - 0xDC00"
  have l: "l < 0x400" using assms by (simp add: h_l_def)
  have "(h * 0x400 + l) div 0x400 = h" "(h * 0x400 + l) mod 0x400 = l" using l by simp_all
  moreover have "0xD800 + h = unat c" "0xDC00 + l = unat d" using assms by (simp_all add: h_l_def)
  ultimately show ?thesis by (simp add: utf16_of_def flip: h_l_def)
qed

lemma usv_string_wf: "wf_utf16 s \<Longrightarrow> usv_string s = s"
  unfolding usv_string_def
proof (induction s rule: code_points.induct)
  case 1
  then show ?case by simp
next
  case (2 c cs)
  note IH = "2.IH"
  show ?case
  proof (cases "is_high c")
    case hi: True
    then obtain d ds where cs: "cs = d # ds" and lo: "is_low d" and wf: "wf_utf16 ds"
      using "2.prems" by (auto split: list.splits)
    have b: "0xD800 \<le> unat c" "unat c \<le> 0xDBFF" "0xDC00 \<le> unat d" "unat d \<le> 0xDFFF"
      using hi lo by (simp_all add: is_high_def is_low_def)
    show ?thesis using hi cs lo IH(1) [OF hi cs lo wf] utf16_of_pair [OF b] by simp
  next
    case nh: False
    have c: "unat c < 65536" using unsigned_less [of c] by simp
    have nl: "\<not> is_low c" and wf: "wf_utf16 cs" using "2.prems" nh by simp_all
    show ?thesis using nh nl IH(4) [OF nh nl wf] c by (simp add: utf16_of_def)
  qed
qed

subsection \<open>Percent-encoding and the form parser\<close>

lemma unat_hex_upper: "d < 16 \<Longrightarrow> unat (hex_upper d) = (if d < 10 then 48 + d else 55 + d)"
  unfolding hex_upper_def by (rule unat_byte_of_nat) simp

lemma hex_nibble_upper: "d < 16 \<Longrightarrow> hex_nibble (hex_upper d) = Some d"
  by (simp add: hex_nibble_def unat_hex_upper)

lemma quote_byte_chars:
  "c \<in> set (quote_byte b) \<Longrightarrow> unat c < 128 \<and> c \<noteq> 0x26 \<and> c \<noteq> 0x3D"
proof -
  assume c: "c \<in> set (quote_byte b)"
  have h: "unat (hex_upper d) < 128 \<and> unat (hex_upper d) \<noteq> 0x26 \<and> unat (hex_upper d) \<noteq> 0x3D"
    if "d < 16" for d using that by (simp add: unat_hex_upper)
  have hb: "unat b div 16 < 16" "unat b mod 16 < (16::nat)"
    using unsigned_less [of b] by (simp_all add: div_bounds)
  show ?thesis
  proof (cases "unreserved b")
    case True
    then have "c = b" using c by (simp add: quote_byte_def)
    with True show ?thesis by (auto simp: unreserved_def Let_def)
  next
    case False
    then show ?thesis using c h [OF hb(1)] h [OF hb(2)]
      by (auto simp: quote_byte_def split: if_splits)
  qed
qed

lemma percent_decode_quote_byte:
  "percent_decode (replace_all 0x2B 0x20 (quote_byte b) @ rest) = b # percent_decode rest"
proof (cases "unreserved b")
  case True
  then have "b \<noteq> 0x2B" "b \<noteq> 0x25" by (auto simp: unreserved_def Let_def)
  then show ?thesis using True by (simp add: quote_byte_def replace_all_def)
next
  case False
  define h l where "h = unat b div 16" "l = unat b mod 16"
  have hl: "h < 16" "l < 16" using unsigned_less [of b] by (simp_all add: h_l_def div_bounds)
  have nplus: "hex_upper d \<noteq> 0x2B" if "d < 16" for d
  proof
    assume "hex_upper d = 0x2B"
    then have "unat (hex_upper d) = 43" by simp
    with that show False by (simp add: unat_hex_upper split: if_splits)
  qed
  have "of_nat (16 * h + l) = b"
  proof -
    have "16 * h + l = unat b" by (simp add: h_l_def)
    then show ?thesis by simp
  qed
  then show ?thesis using False hl nplus [OF hl(1)] nplus [OF hl(2)]
    by (auto simp: quote_byte_def replace_all_def hex_nibble_upper h_l_def [symmetric])
qed

lemma percent_decode_quote:
  "percent_decode (replace_all 0x2B 0x20 (concat (map quote_byte bs))) = bs"
proof (induction bs)
  case (Cons b bs)
  then show ?case
    using percent_decode_quote_byte [of b "replace_all 0x2B 0x20 (concat (map quote_byte bs))"]
    by (simp add: replace_all_append)
qed simp

lemma decode_quote_plus: "decode_component (quote_plus s) = usv_string s"
  using utf8_roundtrip [of "code_points s"] code_points_scalar [of _ s]
  by (simp add: decode_component_def quote_plus_def utf8_encode_def percent_decode_quote usv_string_def)

lemma code_points_ascii:
  "\<forall>b \<in> set (bs :: byte list). unat b < 128 \<Longrightarrow> code_points (map ucast bs) = map unat bs"
  by (induction bs) (simp_all add: is_high_def is_low_def)

lemma utf8_encode_ascii:
  "\<forall>b \<in> set (bs :: byte list). unat b < 128 \<Longrightarrow> utf8_encode (map ucast bs) = bs"
proof -
  assume a: "\<forall>b \<in> set bs. unat b < 128"
  have "concat (map (utf8_encode_cp \<circ> unat) bs) = bs" using a
    by (induction bs) (simp_all add: utf8_encode_cp_def)
  then show ?thesis using a by (simp add: utf8_encode_def code_points_ascii)
qed

lemma split_bytes_no_sep: "d \<notin> set p \<Longrightarrow> split_bytes d p = [p]"
  by (induction p) auto

lemma split_bytes_sep: "d \<notin> set p \<Longrightarrow> split_bytes d (p @ d # r) = p # split_bytes d r"
  by (induction p) (auto split: list.splits)

lemma split_join_amp:
  "ps \<noteq> [] \<Longrightarrow> \<forall>p \<in> set ps. 0x26 \<notin> set p \<Longrightarrow> split_bytes 0x26 (join_amp ps) = ps"
  by (induction ps rule: join_amp.induct) (simp_all add: split_bytes_no_sep split_bytes_sep)

lemma form_entry_pair:
  "0x3D \<notin> set k \<Longrightarrow> form_entry (k @ 0x3D # v) = [(decode_component k, decode_component v)]"
proof -
  assume k: "0x3D \<notin> set k"
  then have "takeWhile (\<lambda>b. b \<noteq> 0x3D) (k @ 0x3D # v) = k"
    "dropWhile (\<lambda>b. b \<noteq> 0x3D) (k @ 0x3D # v) = 0x3D # v"
    by (induction k) auto
  then show ?thesis by (simp add: form_entry_def)
qed

lemma set_join_amp: "set (join_amp ps) \<subseteq> insert 0x26 (\<Union>p \<in> set ps. set p)"
  by (induction ps rule: join_amp.induct) auto

lemma quote_plus_chars: "c \<in> set (quote_plus s) \<Longrightarrow> unat c < 128 \<and> c \<noteq> 0x26 \<and> c \<noteq> 0x3D"
  by (auto simp: quote_plus_def dest: quote_byte_chars)

lemma urlencode_ascii: "\<forall>b \<in> set (urlencode ps). unat b < 128"
proof
  fix b assume "b \<in> set (urlencode ps)"
  then have "b = 0x26 \<or> b = 0x3D \<or> (\<exists>s. b \<in> set (quote_plus s))"
    using set_join_amp [of "map (\<lambda>(k, v). quote_plus k @ [0x3D] @ quote_plus v) ps"]
    by (auto simp: urlencode_def)
  then show "unat b < 128" using quote_plus_chars by auto
qed

lemma form_parse_urlencode:
  "form_parse (urlencode ps) = map (\<lambda>(k, v). (usv_string k, usv_string v)) ps"
proof (cases "ps = []")
  case True
  then show ?thesis by (simp add: form_parse_def urlencode_def form_entry_def)
next
  case False
  let ?parts = "map (\<lambda>(k, v). quote_plus k @ [0x3D] @ quote_plus v) ps"
  have "\<forall>p \<in> set ?parts. 0x26 \<notin> set p" using quote_plus_chars by fastforce
  then have "split_bytes 0x26 (urlencode ps) = ?parts"
    using False by (simp add: urlencode_def split_join_amp)
  moreover have fe: "form_entry (quote_plus k @ [0x3D] @ quote_plus v) = [(usv_string k, usv_string v)]"
    for k v
    using form_entry_pair [of "quote_plus k" "quote_plus v"] quote_plus_chars [of _ k]
    by (auto simp: decode_quote_plus)
  have "concat (map form_entry ?parts) = map (\<lambda>(k, v). (usv_string k, usv_string v)) ps"
    using fe by (induction ps) auto
  ultimately show ?thesis by (simp add: form_parse_def)
qed

subsection \<open>Properties of URLSearchParams\<close>

text \<open>C24: the query string the producer builds is parsed back by
  \<^verbatim>\<open>URLSearchParams\<close> into its entries, in order, each name and value as its
  scalar value string.\<close>

theorem url_params_roundtrip:
  "url_params (query_string ps) = map (\<lambda>(k, v). (usv_string k, usv_string v)) ps"
  using urlencode_ascii [of ps]
  by (simp add: url_params_def query_string_def utf8_encode_ascii form_parse_urlencode)

text \<open>On a concrete query string: \<^verbatim>\<open>+\<close> is a space, a percent-encoded UTF-8
  sequence is one character, a duplicated name gives two entries in order, an empty
  piece is skipped, an escape that is not two hex digits stays as it is, and a
  truncated UTF-8 sequence becomes U+FFFD; nothing throws.\<close>

theorem url_params_example:
  "url_params (js ''?name=Ana+P%C3%A9rez&name=B&&e=%zz%C3&x'') =
     [(js ''name'', js ''Ana P'' @ [0xE9] @ js ''rez''), (js ''name'', js ''B''),
      (js ''e'', js ''%zz'' @ [0xFFFD]), (js ''x'', [])]"
  by code_simp

end
