(* ===== verification/Checkout.thy ===== *)
theory Checkout
  imports Base64 JsValue UrlParams
begin

text \<open>
  The page script \<^verbatim>\<open>src/checkout_web/script.js\<close>, an immediately invoked function
  run once at load. The page is a record of the DOM state the script reads or
  writes: the text of the four display slots, the tables appended to
  \<^verbatim>\<open>.card-right\<close>, the confirmation message's \<^verbatim>\<open>hidden\<close>, the confirm button's
  \<^verbatim>\<open>disabled\<close> and label, the number of click listeners on the button, and the
  console. The query string is given as the entry list of its
  \<^verbatim>\<open>URLSearchParams\<close> (\<open>params\<close>); \<^verbatim>\<open>params.get\<close> is the first entry of a name.
  \<open>initialize\<close> is the whole function body, lines 2 to 72: the defaults of
  lines 4 to 8, the amount of lines 11 to 15, the four slot writes of lines 18
  to 21, the guarded decode of lines 24 to 32 whose exception is caught and logged
  (\<open>ConsoleError\<close>: the call \<^verbatim>\<open>console.error\<close> with its two arguments, the
  label and the exception),
  the table of lines 35 to 62 and the listener of lines 68 to 72. An exception
  that escapes (a TypeError of \<^verbatim>\<open>items.forEach\<close> or of a row) ends the function:
  the slots written before it stay, the table is never appended and no listener is
  attached; the browser reports it on the console (\<open>Uncaught\<close>).
  \<open>dispatch\<close> delivers a click: a user click on a disabled button is not
  delivered; a synthetic one (\<^verbatim>\<open>dispatchEvent\<close>) runs the listeners regardless.
  Markup assigned to \<^verbatim>\<open>innerHTML\<close> is kept as the string assigned; the HTML parse
  of it is not modelled. The element lookups are assumed to find their element, as
  on a well-formed page; theory \<open>Dom\<close> models them and proves the script equal to
  \<open>initialize\<close> on such a page.
\<close>

record table =
  tbl_class :: jstr
  tbl_header :: jstr
  tbl_rows :: "jstr list"

datatype log_entry =
    ConsoleError jstr js_error
  | Uncaught js_error

record page =
  buyer_name :: jstr
  buyer_email :: jstr
  buyer_id :: jstr
  order_amount :: jstr
  card_right :: "table list"
  msg_hidden :: bool
  btn_disabled :: bool
  btn_label :: jstr
  btn_listeners :: nat
  console :: "log_entry list"

type_synonym params = "(jstr \<times> jstr) list"

subsection \<open>Lines 2 to 8: the query parameters\<close>

definition param_get :: "params \<Rightarrow> jstr \<Rightarrow> jstr option" where
  "param_get ps k = map_of ps k"

text \<open>\<^verbatim>\<open>params.get(k) || d\<close>: an absent or empty parameter gives the default.\<close>

definition param_or :: "params \<Rightarrow> jstr \<Rightarrow> jstr \<Rightarrow> jstr" where
  "param_or ps k d = (case param_get ps k of Some v \<Rightarrow> if v = [] then d else v | None \<Rightarrow> d)"

definition items_param :: "params \<Rightarrow> jstr option" where
  "items_param ps =
     (case param_get ps (js ''items'') of Some v \<Rightarrow> if v = [] then None else Some v | None \<Rightarrow> None)"

subsection \<open>Lines 11 to 15: the amount\<close>

definition amount_number :: "jstr \<Rightarrow> jsnum" where
  "amount_number raw = (let x = parse_float raw in if num_truthy x then x else Fin 0 0)"

subsection \<open>Lines 24 to 32: decoding the cart\<close>

definition decode_items :: "jstr option \<Rightarrow> json \<times> log_entry list" where
  "decode_items enc =
     (case enc of
        None \<Rightarrow> (JArr [], [])
      | Some s \<Rightarrow>
          (case throw_bind (atob (urlsafe_to_std s)) json_parse of
             Inl e \<Rightarrow> (JArr [], [ConsoleError (js ''Error decoding items:'') e])
           | Inr v \<Rightarrow> (v, [])))"

subsection \<open>Lines 35 to 62: the table\<close>

definition header_markup :: jstr where
  "header_markup =
     [10] @ js ''    <tr>'' @ [10] @ js ''      <th>Producto</th>'' @ [10]
     @ js ''      <th>Cant.</th>'' @ [10] @ js ''      <th>Unit.</th>'' @ [10]
     @ js ''      <th>Subtotal</th>'' @ [10] @ js ''    </tr>'' @ [10] @ js ''  ''"

definition row_markup :: "jstr \<Rightarrow> jstr \<Rightarrow> jstr \<Rightarrow> jstr \<Rightarrow> jstr" where
  "row_markup n q u s =
     [10] @ js ''      <td>'' @ n @ js ''</td>'' @ [10]
     @ js ''      <td>'' @ q @ js ''</td>'' @ [10]
     @ js ''      <td>$'' @ u @ js ''</td>'' @ [10]
     @ js ''      <td>$'' @ s @ js ''</td>'' @ [10] @ js ''    ''"

text \<open>One call of the \<^verbatim>\<open>forEach\<close> callback, lines 48 to 57, in the order JavaScript
  evaluates it: the two reads and the two conversions of the product, then the
  template's substitutions from left to right.\<close>

definition render_item :: "json \<Rightarrow> js_error + jstr" where
  "render_item item =
     throw_bind (get_prop item (js ''unit_price'')) (\<lambda>u.
     throw_bind (get_prop item (js ''quantity'')) (\<lambda>q.
     throw_bind (val_to_number u) (\<lambda>nu.
     throw_bind (val_to_number q) (\<lambda>nq.
     (let subtotal = num_mult nu nq in
      throw_bind (get_prop item (js ''name'')) (\<lambda>nm.
      throw_bind (val_to_string nm) (\<lambda>sn.
      throw_bind (get_prop item (js ''quantity'')) (\<lambda>q2.
      throw_bind (val_to_string q2) (\<lambda>sq.
      throw_bind (get_prop item (js ''unit_price'')) (\<lambda>u2.
      throw_bind (val_to_locale u2) (\<lambda>su.
      Inr (row_markup sn sq su (locale_number subtotal)))))))))))))"

fun render_all :: "json list \<Rightarrow> js_error + jstr list" where
  "render_all [] = Inr []"
| "render_all (v # vs) = throw_bind (render_item v) (\<lambda>r. throw_bind (render_all vs) (\<lambda>rs. Inr (r # rs)))"

text \<open>\<^verbatim>\<open>items.forEach(...)\<close>: only an array has a callable \<^verbatim>\<open>forEach\<close>.\<close>

fun for_each_rows :: "json \<Rightarrow> js_error + jstr list" where
  "for_each_rows (JArr vs) = render_all vs"
| "for_each_rows _ = Inl TypeError"

definition items_table :: "jstr list \<Rightarrow> table" where
  "items_table rows = \<lparr>tbl_class = js ''items-table'', tbl_header = header_markup, tbl_rows = rows\<rparr>"

subsection \<open>The whole script\<close>

definition initialize :: "params \<Rightarrow> page \<Rightarrow> page" where
  "initialize ps p0 =
     (let userId = param_or ps (js ''user_id'') [0x2013];
          name = param_or ps (js ''name'') (js ''Cliente'');
          email = param_or ps (js ''email'') (js ''sin-email@example.com'');
          amountRaw = param_or ps (js ''amount'') (js ''0'');
          itemsEncoded = items_param ps;
          amountFormatted = locale_currency (amount_number amountRaw);
          p1 = p0\<lparr>buyer_name := name, buyer_email := email, buyer_id := userId,
                  order_amount := amountFormatted\<rparr>;
          (items, logged) = decode_items itemsEncoded;
          p2 = p1\<lparr>console := console p1 @ logged\<rparr>
      in case for_each_rows items of
           Inl e \<Rightarrow> p2\<lparr>console := console p2 @ [Uncaught e]\<rparr>
         | Inr rows \<Rightarrow>
             p2\<lparr>card_right := card_right p2 @ [items_table rows],
                btn_listeners := Suc (btn_listeners p2)\<rparr>)"

text \<open>The script as the page runs it: line 2 builds the parameters from
  \<^verbatim>\<open>window.location.search\<close>.\<close>

definition load_page :: "jstr \<Rightarrow> page \<Rightarrow> page" where
  "load_page search p = initialize (url_params search) p"

subsection \<open>Lines 68 to 72: the confirm button\<close>

definition confirm_label :: jstr where
  "confirm_label = js ''Pedido confirmado (demo)''"

definition confirm_handler :: "page \<Rightarrow> page" where
  "confirm_handler p = p\<lparr>msg_hidden := False, btn_disabled := True, btn_label := confirm_label\<rparr>"

datatype event =
    UserClick
  | SyntheticClick

definition dispatch :: "event \<Rightarrow> page \<Rightarrow> page" where
  "dispatch ev p =
     (if ev = UserClick \<and> btn_disabled p then p else (confirm_handler ^^ btn_listeners p) p)"

fun run_events :: "event list \<Rightarrow> page \<Rightarrow> page" where
  "run_events [] p = p"
| "run_events (ev # evs) p = run_events evs (dispatch ev p)"

subsection \<open>The confirm button as a state machine\<close>

inductive ui_step :: "page \<Rightarrow> page \<Rightarrow> bool" where
  deliver: "ui_step p (dispatch ev p)"

inductive_cases ui_stepE: "ui_step p q"

datatype ui_state =
    Active
  | Confirmed

definition ui_abs :: "page \<Rightarrow> ui_state" where
  "ui_abs p = (if btn_disabled p then Confirmed else Active)"

inductive abs_step :: "ui_state \<Rightarrow> ui_state \<Rightarrow> bool" where
  confirm: "abs_step Active Confirmed"
| stay: "abs_step s s"

definition ui_inv :: "page \<Rightarrow> bool" where
  "ui_inv p \<longleftrightarrow> (btn_disabled p \<longleftrightarrow> \<not> msg_hidden p) \<and> (btn_disabled p \<longrightarrow> btn_label p = confirm_label)"

text \<open>A page as served, before the script runs: empty slots, no table, the message
  hidden, the button enabled with its own label and no listener.\<close>

definition fresh_page :: page where
  "fresh_page = \<lparr>buyer_name = [], buyer_email = [], buyer_id = [], order_amount = [],
     card_right = [], msg_hidden = True, btn_disabled = False, btn_label = js ''Confirmar pedido'',
     btn_listeners = 0, console = []\<rparr>"

subsection \<open>Lemmas of the page\<close>

lemma confirm_handler_idem [simp]: "confirm_handler (confirm_handler p) = confirm_handler p"
  by (simp add: confirm_handler_def)

lemma funpow_confirm_handler: "0 < n \<Longrightarrow> (confirm_handler ^^ n) p = confirm_handler p"
proof (induction n)
  case (Suc n)
  then show ?case by (cases n) simp_all
qed simp

lemma confirm_handler_fields [simp]:
  "btn_listeners (confirm_handler p) = btn_listeners p"
  "btn_disabled (confirm_handler p)" "\<not> msg_hidden (confirm_handler p)"
  "btn_label (confirm_handler p) = confirm_label"
  by (simp_all add: confirm_handler_def)

lemma dispatch_no_listener: "btn_listeners p = 0 \<Longrightarrow> dispatch ev p = p"
  by (simp add: dispatch_def)

lemma dispatch_listener:
  "0 < btn_listeners p \<Longrightarrow> dispatch ev p = (if ev = UserClick \<and> btn_disabled p then p else confirm_handler p)"
  by (simp add: dispatch_def funpow_confirm_handler)

lemma confirm_handler_fixed: "ui_inv p \<Longrightarrow> btn_disabled p \<Longrightarrow> confirm_handler p = p"
  by (simp add: ui_inv_def confirm_handler_def)

lemma dispatch_keeps_inv: "ui_inv p \<Longrightarrow> ui_inv (dispatch ev p)"
  by (cases "btn_listeners p") (auto simp: dispatch_listener dispatch_no_listener ui_inv_def)

lemma initialize_fields:
  "order_amount (initialize ps p) = locale_currency (amount_number (param_or ps (js ''amount'') (js ''0'')))"
  "msg_hidden (initialize ps p) = msg_hidden p"
  "btn_disabled (initialize ps p) = btn_disabled p"
  "btn_label (initialize ps p) = btn_label p"
  by (simp_all add: initialize_def Let_def split: prod.split sum.split)

lemma initialize_Inr:
  assumes "decode_items (items_param ps) = (items, logged)" "for_each_rows items = Inr rows"
  shows "card_right (initialize ps p) = card_right p @ [items_table rows]"
    and "btn_listeners (initialize ps p) = Suc (btn_listeners p)"
    and "console (initialize ps p) = console p @ logged"
  using assms by (simp_all add: initialize_def Let_def)

lemma initialize_Inl:
  assumes "decode_items (items_param ps) = (items, logged)" "for_each_rows items = Inl e"
  shows "card_right (initialize ps p) = card_right p"
    and "btn_listeners (initialize ps p) = btn_listeners p"
    and "console (initialize ps p) = console p @ logged @ [Uncaught e]"
  using assms by (simp_all add: initialize_def Let_def)

lemma render_all_Inr:
  "render_all vs = Inr rows \<Longrightarrow> list_all2 (\<lambda>v r. render_item v = Inr r) vs rows"
  by (induction vs arbitrary: rows) (auto simp: throw_bind_def split: sum.splits)

lemma render_all_Inr_iff:
  "render_all vs = Inr rows \<longleftrightarrow> list_all2 (\<lambda>v r. render_item v = Inr r) vs rows"
proof
  show "list_all2 (\<lambda>v r. render_item v = Inr r) vs rows \<Longrightarrow> render_all vs = Inr rows"
    by (induction vs arbitrary: rows) (auto simp: list_all2_Cons1)
qed (rule render_all_Inr)

lemma render_all_Inl:
  "v \<in> set vs \<Longrightarrow> render_item v = Inl e \<Longrightarrow> \<exists>e'. render_all vs = Inl e'"
  by (induction vs) (auto simp: throw_bind_def split: sum.splits)

lemma throw_bind_Inr_iff:
  "throw_bind r f = Inr x \<longleftrightarrow> (\<exists>a. r = Inr a \<and> f a = Inr x)"
  by (cases r) simp_all

lemma render_item_no_price:
  assumes "get_prop v (js ''unit_price'') = Inr Undefined"
  shows "\<exists>e. render_item v = Inl e"
proof (cases "render_item v")
  case (Inr x)
  then show ?thesis using assms by (auto simp: render_item_def throw_bind_Inr_iff Let_def)
qed simp

lemma decode_items_None: "decode_items None = (JArr [], [])"
  by (simp add: decode_items_def)

lemma ui_inv_fresh: "\<not> btn_disabled p \<Longrightarrow> msg_hidden p \<Longrightarrow> ui_inv (initialize ps p)"
  by (simp add: ui_inv_def initialize_fields)

lemma ui_step_inv: "ui_step p q \<Longrightarrow> ui_inv p \<Longrightarrow> ui_inv q"
  by (auto elim: ui_stepE intro: dispatch_keeps_inv)

lemma ui_reach_inv: "ui_step\<^sup>*\<^sup>* p q \<Longrightarrow> ui_inv p \<Longrightarrow> ui_inv q"
  by (induction rule: rtranclp_induct) (auto intro: ui_step_inv)

lemma ui_step_confirmed: "ui_inv p \<Longrightarrow> btn_disabled p \<Longrightarrow> ui_step p q \<Longrightarrow> q = p"
  by (cases "btn_listeners p")
     (auto elim!: ui_stepE simp: dispatch_no_listener dispatch_listener confirm_handler_fixed)

lemma ui_step_simulates: "ui_step p q \<Longrightarrow> abs_step (ui_abs p) (ui_abs q)"
  by (cases "btn_listeners p")
     (auto elim!: ui_stepE simp: dispatch_no_listener dispatch_listener ui_abs_def
        intro: abs_step.intros split: if_splits)

lemma run_events_no_listener: "btn_listeners p = 0 \<Longrightarrow> run_events evs p = p"
  by (induction evs) (simp_all add: dispatch_no_listener)

lemma run_events_confirmed:
  "0 < btn_listeners p \<Longrightarrow> run_events evs (confirm_handler p) = confirm_handler p"
  by (induction evs) (simp_all add: dispatch_listener)

lemma ui_reach_simulates: "ui_step\<^sup>*\<^sup>* p q \<Longrightarrow> abs_step\<^sup>*\<^sup>* (ui_abs p) (ui_abs q)"
  by (induction rule: rtranclp_induct) (auto intro: rtranclp.rtrancl_into_rtrancl ui_step_simulates)

lemma ui_abs_initialize: "\<not> btn_disabled p \<Longrightarrow> ui_abs (initialize ps p) = Active"
  by (simp add: ui_abs_def initialize_fields)

lemma listeners_no_items: "btn_listeners (initialize [] p) = Suc (btn_listeners p)"
proof -
  have "decode_items (items_param []) = (JArr [], [])"
    by (simp add: items_param_def param_get_def decode_items_def)
  then show ?thesis by (rule initialize_Inr(2)) simp
qed

lemma funpow_confirm_view:
  "buyer_name ((confirm_handler ^^ n) p) = buyer_name p \<and> buyer_email ((confirm_handler ^^ n) p) = buyer_email p
   \<and> buyer_id ((confirm_handler ^^ n) p) = buyer_id p \<and> order_amount ((confirm_handler ^^ n) p) = order_amount p
   \<and> card_right ((confirm_handler ^^ n) p) = card_right p \<and> console ((confirm_handler ^^ n) p) = console p"
  by (induction n) (simp_all add: confirm_handler_def)

lemma dispatch_view [simp]:
  "buyer_name (dispatch ev p) = buyer_name p" "buyer_email (dispatch ev p) = buyer_email p"
  "buyer_id (dispatch ev p) = buyer_id p" "order_amount (dispatch ev p) = order_amount p"
  "card_right (dispatch ev p) = card_right p" "console (dispatch ev p) = console p"
  by (simp_all add: dispatch_def funpow_confirm_view)

lemma dispatch_listeners [simp]: "btn_listeners (dispatch ev p) = btn_listeners p"
  by (cases "btn_listeners p") (simp_all add: dispatch_no_listener dispatch_listener)

lemma ui_reach_listeners: "ui_step\<^sup>*\<^sup>* p q \<Longrightarrow> btn_listeners q = btn_listeners p"
  by (induction rule: rtranclp_induct) (auto elim: ui_stepE)

subsection \<open>Properties of the page\<close>

text \<open>C1: whatever the cart does, each display slot shows its query parameter, or the
  documented default when the parameter is absent or empty.\<close>

theorem slots_param_or_default:
  "buyer_name (initialize ps p) =
     (case map_of ps (js ''name'') of Some v \<Rightarrow> if v = [] then js ''Cliente'' else v | None \<Rightarrow> js ''Cliente'')
   \<and> buyer_email (initialize ps p) =
     (case map_of ps (js ''email'') of Some v \<Rightarrow> if v = [] then js ''sin-email@example.com'' else v
      | None \<Rightarrow> js ''sin-email@example.com'')
   \<and> buyer_id (initialize ps p) =
     (case map_of ps (js ''user_id'') of Some v \<Rightarrow> if v = [] then [0x2013] else v | None \<Rightarrow> [0x2013])"
  by (simp add: initialize_def Let_def param_or_def param_get_def split: prod.split sum.split)


text \<open>An amount that parseFloat cannot read, or reads as zero, is shown as the
  formatting of 0.\<close>

theorem amount_unreadable_is_zero:
  assumes "map_of ps (js ''amount'') = Some raw" "raw \<noteq> []" "\<not> num_truthy (parse_float raw)"
  shows "order_amount (initialize ps p) = [36, 0xA0] @ js ''0,00''"
proof -
  have z: "locale_currency (Fin 0 0) = [36, 0xA0] @ js ''0,00''" by code_simp
  show ?thesis using assms z
    by (simp add: initialize_fields param_or_def param_get_def amount_number_def)
qed

theorem amount_unreadable_is_zero_witness:
  "order_amount (initialize [(js ''amount'', js ''abc'')] fresh_page) = [36, 0xA0] @ js ''0,00''"
proof -
  have h1: "map_of [(js ''amount'', js ''abc'')] (js ''amount'') = Some (js ''abc'')" by simp
  have h2: "js ''abc'' \<noteq> []" by (simp add: js_def)
  have h3: "\<not> num_truthy (parse_float (js ''abc''))" by code_simp
  show ?thesis by (rule amount_unreadable_is_zero [OF h1 h2 h3])
qed

text \<open>C23: parseFloat reads the longest decimal prefix of the amount: an amount that
  starts with the digits of a whole number followed by anything else than a digit,
  a point or an exponent (\<^verbatim>\<open>12px\<close>, \<^verbatim>\<open>1500 ARS\<close>) is shown as that
  number, grouped by thousands, with the cents ,00; it does not collapse to 0.\<close>

theorem amount_whole_prefix:
  assumes "map_of ps (js ''amount'') = Some (nat_to_js n @ rest)" "num_stop rest"
  shows "order_amount (initialize ps p) =
           [36, 0xA0] @ (if 4 \<le> length (nat_to_js n) then group_digits 46 (nat_to_js n) else nat_to_js n)
           @ [44, 48, 48]"
proof (cases "n = 0")
  case True
  have z: "mk_num 0 0 = Fin 0 0" by (simp add: mk_num_def norm_dec.simps)
  have "locale_currency (Fin 0 0) =
      [36, 0xA0] @ (if 4 \<le> length (nat_to_js 0) then group_digits 46 (nat_to_js 0) else nat_to_js 0)
      @ [44, 48, 48]"
    using locale_currency_nat [of 0] z by simp
  then show ?thesis using assms True z
    by (simp add: initialize_fields param_or_def param_get_def amount_number_def parse_float_nat
        del: locale_currency.simps)
next
  case False
  obtain m e where "mk_num (int n) 0 = Fin m e" "0 \<le> m" "0 \<le> e" "n = nat m * 10 ^ nat e"
    using mk_num_nat by blast
  then have "num_truthy (mk_num (int n) 0)" using False by auto
  then show ?thesis using assms
    by (simp add: initialize_fields param_or_def param_get_def amount_number_def parse_float_nat
        locale_currency_nat del: locale_currency.simps)
qed

theorem amount_whole_prefix_witness:
  "order_amount (initialize [(js ''amount'', js ''12px'')] fresh_page) = [36, 0xA0] @ js ''12,00''"
proof -
  have h1: "map_of [(js ''amount'', js ''12px'')] (js ''amount'') = Some (nat_to_js 12 @ js ''px'')"
    by code_simp
  have h2: "num_stop (js ''px'')" by code_simp
  have g: "(if 4 \<le> length (nat_to_js 12) then group_digits 46 (nat_to_js 12) else nat_to_js 12)
      @ [44, 48, 48] = js ''12,00''" by code_simp
  show ?thesis using amount_whole_prefix [OF h1 h2, of fresh_page] g by simp
qed

text \<open>C2: a cart payload that atob or JSON.parse rejects is caught: the error is
  logged, the table is appended with its header and no row, and the confirm button
  gets its listener.\<close>

theorem decode_failure_contained:
  assumes "items_param ps = Some s" "throw_bind (atob (urlsafe_to_std s)) json_parse = Inl e"
  shows "card_right (initialize ps p) = card_right p @ [items_table []]
       \<and> btn_listeners (initialize ps p) = Suc (btn_listeners p)
       \<and> console (initialize ps p) = console p @ [ConsoleError (js ''Error decoding items:'') e]"
proof -
  have "decode_items (items_param ps) = (JArr [], [ConsoleError (js ''Error decoding items:'') e])"
    using assms by (simp add: decode_items_def)
  moreover have "for_each_rows (JArr []) = Inr []" by simp
  ultimately show ?thesis by (simp add: initialize_Inr)
qed

theorem decode_failure_contained_witness:
  "card_right (initialize [(js ''items'', js ''!!'')] fresh_page) = [items_table []]
   \<and> btn_listeners (initialize [(js ''items'', js ''!!'')] fresh_page) = 1
   \<and> console (initialize [(js ''items'', js ''!!'')] fresh_page) = [ConsoleError (js ''Error decoding items:'') InvalidCharacterError]"
proof -
  have h1: "items_param [(js ''items'', js ''!!'')] = Some (js ''!!'')"
    by (simp add: items_param_def param_get_def js_def)
  have h2: "throw_bind (atob (urlsafe_to_std (js ''!!''))) json_parse = Inl InvalidCharacterError"
    by code_simp
  show ?thesis using decode_failure_contained [OF h1 h2, of fresh_page] by (simp add: fresh_page_def)
qed

text \<open>C4: when the cart decodes to an array whose items all render, the table holds
  one row per item, in the cart's order, each the rendering of its item.\<close>

theorem rows_follow_cart:
  assumes "decode_items (items_param ps) = (JArr vs, lg)" "render_all vs = Inr rows"
  shows "card_right (initialize ps p) = card_right p @ [items_table rows]
       \<and> length rows = length vs
       \<and> (\<forall>i < length vs. render_item (vs ! i) = Inr (rows ! i))"
proof -
  have "list_all2 (\<lambda>v r. render_item v = Inr r) vs rows" using assms(2) by (rule render_all_Inr)
  then show ?thesis using assms by (simp add: initialize_Inr list_all2_conv_all_nth)
qed

theorem rows_follow_cart_witness:
  "card_right (initialize [] fresh_page) = [items_table []]"
proof -
  have h1: "decode_items (items_param []) = (JArr [], [])"
    by (simp add: items_param_def param_get_def decode_items_def)
  have h2: "render_all [] = Inr []" by simp
  show ?thesis using rows_follow_cart [OF h1 h2, of fresh_page] by (simp add: fresh_page_def)
qed

text \<open>Without an items parameter (or with an empty one) the table has its
  header and no row, nothing is logged and the listener is attached.\<close>

theorem no_items_header_only:
  assumes "items_param ps = None"
  shows "card_right (initialize ps p) = card_right p @ [items_table []]
       \<and> console (initialize ps p) = console p
       \<and> btn_listeners (initialize ps p) = Suc (btn_listeners p)"
  using assms by (simp add: initialize_Inr decode_items_None)

theorem no_items_header_only_witness:
  "items_param [(js ''name'', js ''Ana'')] = None \<and>
   card_right (initialize [(js ''name'', js ''Ana'')] fresh_page) = [items_table []]"
proof -
  have h: "items_param [(js ''name'', js ''Ana'')] = None"
    by (simp add: items_param_def param_get_def)
  show ?thesis using h no_items_header_only [OF h, of fresh_page] by (simp add: fresh_page_def)
qed

text \<open>C3: a payload that decodes to JSON that is not an array (an object, a string,
  a number, null) makes \<^verbatim>\<open>items.forEach\<close> throw outside the try block: no table
  is appended, the button gets no listener and the TypeError goes uncaught.\<close>

theorem non_array_cart_aborts:
  assumes "decode_items (items_param ps) = (v, lg)" "\<forall>vs. v \<noteq> JArr vs"
  shows "card_right (initialize ps p) = card_right p
       \<and> btn_listeners (initialize ps p) = btn_listeners p
       \<and> console (initialize ps p) = console p @ lg @ [Uncaught TypeError]"
proof -
  have "for_each_rows v = Inl TypeError" using assms(2) by (cases v) auto
  then show ?thesis using assms(1) by (simp add: initialize_Inl)
qed

theorem non_array_cart_aborts_witness:
  "card_right (initialize [(js ''items'', js ''e30'')] fresh_page) = []
   \<and> btn_listeners (initialize [(js ''items'', js ''e30'')] fresh_page) = 0
   \<and> console (initialize [(js ''items'', js ''e30'')] fresh_page) = [Uncaught TypeError]"
proof -
  have h1: "decode_items (items_param [(js ''items'', js ''e30'')]) = (JObj [], [])"
    by code_simp
  have h2: "\<forall>vs. JObj [] \<noteq> JArr vs" by simp
  show ?thesis using non_array_cart_aborts [OF h1 h2, of fresh_page] by (simp add: fresh_page_def)
qed

text \<open>C11: an item without \<^verbatim>\<open>unit_price\<close> makes its row throw
  (\<^verbatim>\<open>undefined.toLocaleString\<close>): the whole table is lost and the button gets
  no listener, whatever the other items are.\<close>

theorem item_without_price_aborts:
  assumes "decode_items (items_param ps) = (JArr vs, lg)" "v \<in> set vs"
    "get_prop v (js ''unit_price'') = Inr Undefined"
  shows "card_right (initialize ps p) = card_right p
       \<and> btn_listeners (initialize ps p) = btn_listeners p"
proof -
  obtain e where "render_item v = Inl e" using render_item_no_price [OF assms(3)] by blast
  then obtain e' where "render_all vs = Inl e'" using render_all_Inl [OF assms(2)] by blast
  then show ?thesis using assms(1) by (simp add: initialize_Inl)
qed

theorem item_without_price_aborts_witness:
  "card_right (initialize [(js ''items'', b64url_encode (bytes_of ''[{\"name\":\"A\",\"quantity\":1}]''))]
     fresh_page) = []"
proof -
  have h1: "decode_items (items_param [(js ''items'', b64url_encode (bytes_of ''[{\"name\":\"A\",\"quantity\":1}]''))])
      = (JArr [JObj [(js ''name'', JStr (js ''A'')), (js ''quantity'', JNum (Fin 1 0))]], [])"
    by code_simp
  have h2: "JObj [(js ''name'', JStr (js ''A'')), (js ''quantity'', JNum (Fin 1 0))]
      \<in> set [JObj [(js ''name'', JStr (js ''A'')), (js ''quantity'', JNum (Fin 1 0))]]" by simp
  have h3: "get_prop (JObj [(js ''name'', JStr (js ''A'')), (js ''quantity'', JNum (Fin 1 0))])
      (js ''unit_price'') = Inr Undefined"
    by (simp add: obj_get_def js_def)
  show ?thesis using item_without_price_aborts [OF h1 h2 h3, of fresh_page] by (simp add: fresh_page_def)
qed

text \<open>C12: a cart item with a string name and numeric quantity and unit price renders
  as the row template filled with the name as given (markup included), the
  quantity by Number::toString, and the unit price and the product formatted for
  es-AR.\<close>

theorem row_of_item:
  assumes "obj_get kvs (js ''name'') = Some (JStr n)" "obj_get kvs (js ''quantity'') = Some (JNum q)"
    "obj_get kvs (js ''unit_price'') = Some (JNum u)"
  shows "render_item (JObj kvs) =
           Inr (row_markup n (num_to_string q) (locale_number u) (locale_number (num_mult u q)))"
  using assms by (simp add: render_item_def)

theorem row_of_item_witness:
  "render_item (JObj [(js ''name'', JStr (js ''<b>W</b>'')), (js ''quantity'', JNum (Fin 3 0)),
       (js ''unit_price'', JNum (Fin 10 0))])
   = Inr (row_markup (js ''<b>W</b>'') (num_to_string (Fin 3 0)) (locale_number (Fin 10 0))
       (locale_number (num_mult (Fin 10 0) (Fin 3 0))))"
proof -
  let ?kvs = "[(js ''name'', JStr (js ''<b>W</b>'')), (js ''quantity'', JNum (Fin 3 0)),
       (js ''unit_price'', JNum (Fin 10 0))]"
  have h1: "obj_get ?kvs (js ''name'') = Some (JStr (js ''<b>W</b>''))" by (simp add: obj_get_def js_def)
  have h2: "obj_get ?kvs (js ''quantity'') = Some (JNum (Fin 3 0))" by (simp add: obj_get_def js_def)
  have h3: "obj_get ?kvs (js ''unit_price'') = Some (JNum (Fin 10 0))" by (simp add: obj_get_def js_def)
  show ?thesis by (rule row_of_item [OF h1 h2 h3])
qed






text \<open>C15: Confirmed is terminal: a reachable page whose button is disabled shows the
  message and the confirmation label, and no click changes it.\<close>

theorem confirmed_is_terminal:
  assumes "\<not> btn_disabled p" "msg_hidden p" "ui_step\<^sup>*\<^sup>* (initialize ps p) q"
    "ui_abs q = Confirmed"
  shows "\<not> msg_hidden q \<and> btn_label q = confirm_label \<and> (\<forall>q'. ui_step q q' \<longrightarrow> q' = q)"
proof -
  have i: "ui_inv q" using ui_reach_inv [OF assms(3) ui_inv_fresh [OF assms(1,2)]] .
  have d: "btn_disabled q" using assms(4) by (simp add: ui_abs_def split: if_splits)
  show ?thesis using i d ui_step_confirmed [OF i d] by (simp add: ui_inv_def)
qed

theorem confirmed_is_terminal_witness:
  "\<not> msg_hidden (dispatch UserClick (initialize [] fresh_page))
   \<and> btn_label (dispatch UserClick (initialize [] fresh_page)) = confirm_label
   \<and> dispatch SyntheticClick (dispatch UserClick (initialize [] fresh_page))
       = dispatch UserClick (initialize [] fresh_page)"
proof -
  have h1: "\<not> btn_disabled fresh_page" "msg_hidden fresh_page" by (simp_all add: fresh_page_def)
  have h2: "ui_step\<^sup>*\<^sup>* (initialize [] fresh_page) (dispatch UserClick (initialize [] fresh_page))"
    by (rule r_into_rtranclp) (rule ui_step.deliver)
  have l: "0 < btn_listeners (initialize [] fresh_page)" by (simp add: listeners_no_items)
  have h3: "ui_abs (dispatch UserClick (initialize [] fresh_page)) = Confirmed"
    using l by (simp add: dispatch_listener ui_abs_def)
  show ?thesis using confirmed_is_terminal [OF h1 h2 h3] ui_step.deliver by blast
qed

text \<open>C16: when the script aborts on the cart, the button never gets a listener: no
  sequence of clicks changes the page, so the order cannot be confirmed.\<close>

theorem dead_button_after_abort:
  assumes "btn_listeners p = 0" "for_each_rows (fst (decode_items (items_param ps))) = Inl e"
  shows "run_events evs (initialize ps p) = initialize ps p"
proof -
  obtain items lg where d: "decode_items (items_param ps) = (items, lg)" by fastforce
  have "btn_listeners (initialize ps p) = 0"
    using initialize_Inl(2) [OF d] assms d by simp
  then show ?thesis by (rule run_events_no_listener)
qed

theorem dead_button_after_abort_witness:
  "run_events [UserClick, SyntheticClick] (initialize [(js ''items'', js ''e30'')] fresh_page)
   = initialize [(js ''items'', js ''e30'')] fresh_page"
proof -
  have h1: "btn_listeners fresh_page = 0" by (simp add: fresh_page_def)
  have h2: "for_each_rows (fst (decode_items (items_param [(js ''items'', js ''e30'')]))) = Inl TypeError"
    by code_simp
  show ?thesis by (rule dead_button_after_abort [OF h1 h2])
qed

text \<open>C27: an item without \<^verbatim>\<open>quantity\<close> does not throw: its row shows
  \<^verbatim>\<open>undefined\<close> as the quantity and \<^verbatim>\<open>$NaN\<close> as the subtotal.\<close>

theorem item_without_quantity_nan:
  assumes "obj_get kvs (js ''name'') = Some (JStr n)" "obj_get kvs (js ''quantity'') = None"
    "obj_get kvs (js ''unit_price'') = Some (JNum u)"
  shows "render_item (JObj kvs) = Inr (row_markup n (js ''undefined'') (locale_number u) (js ''NaN''))"
  using assms by (cases u) (simp_all add: render_item_def)

theorem item_without_quantity_nan_witness:
  "render_item (JObj [(js ''name'', JStr (js ''Widget'')), (js ''unit_price'', JNum (Fin 1 1))])
   = Inr (row_markup (js ''Widget'') (js ''undefined'') (locale_number (Fin 1 1)) (js ''NaN''))"
proof -
  let ?kvs = "[(js ''name'', JStr (js ''Widget'')), (js ''unit_price'', JNum (Fin 1 1))]"
  have h1: "obj_get ?kvs (js ''name'') = Some (JStr (js ''Widget''))" by (simp add: obj_get_def js_def)
  have h2: "obj_get ?kvs (js ''quantity'') = None" by (simp add: obj_get_def js_def)
  have h3: "obj_get ?kvs (js ''unit_price'') = Some (JNum (Fin 1 1))" by (simp add: obj_get_def js_def)
  show ?thesis by (rule item_without_quantity_nan [OF h1 h2 h3])
qed

text \<open>C28: clicks change only the confirmation message and the button: the four
  slots, the table and the console stay as the script left them, for every
  sequence of clicks.\<close>

theorem clicks_keep_order_view:
  "buyer_name (run_events evs p) = buyer_name p \<and> buyer_email (run_events evs p) = buyer_email p
   \<and> buyer_id (run_events evs p) = buyer_id p \<and> order_amount (run_events evs p) = order_amount p
   \<and> card_right (run_events evs p) = card_right p \<and> console (run_events evs p) = console p"
  by (induction evs arbitrary: p) (simp_all add: dispatch_view)

text \<open>C31: once the listener is attached, Confirmed stays reachable: from every page
  the clicks can reach, one more user click leaves the button in Confirmed with the
  message shown.\<close>

theorem click_reaches_confirmed:
  assumes "\<not> btn_disabled p" "msg_hidden p" "0 < btn_listeners (initialize ps p)"
    "ui_step\<^sup>*\<^sup>* (initialize ps p) q"
  shows "ui_abs (dispatch UserClick q) = Confirmed \<and> \<not> msg_hidden (dispatch UserClick q)"
proof -
  have l: "0 < btn_listeners q" using ui_reach_listeners [OF assms(4)] assms(3) by simp
  have i: "ui_inv q" using ui_reach_inv [OF assms(4) ui_inv_fresh [OF assms(1,2)]] .
  show ?thesis
  proof (cases "btn_disabled q")
    case True
    then show ?thesis using l i by (simp add: dispatch_listener ui_abs_def ui_inv_def)
  next
    case False
    then show ?thesis using l by (simp add: dispatch_listener ui_abs_def)
  qed
qed

theorem click_reaches_confirmed_witness:
  "ui_abs (dispatch UserClick (initialize [] fresh_page)) = Confirmed
   \<and> \<not> msg_hidden (dispatch UserClick (initialize [] fresh_page))"
proof -
  have h1: "\<not> btn_disabled fresh_page" "msg_hidden fresh_page" by (simp_all add: fresh_page_def)
  have h2: "0 < btn_listeners (initialize [] fresh_page)" by (simp add: listeners_no_items)
  have h3: "ui_step\<^sup>*\<^sup>* (initialize [] fresh_page) (initialize [] fresh_page)" by (rule rtranclp.rtrancl_refl)
  show ?thesis by (rule click_reaches_confirmed [OF h1 h2 h3])
qed

subsection \<open>What the amount slot and the row cells denote\<close>

lemma num_mult_Fin:
  "\<exists>m' e'. num_mult (Fin a b) (Fin c d) = Fin m' e' \<and> dec_val m' e' = dec_val a b * dec_val c d"
proof -
  obtain m' e' where n: "norm_dec (a * c) (b + d) = (m', e')" by fastforce
  show ?thesis using norm_dec_value [OF n] n by (simp add: mk_num_def dec_val_mult)
qed

text \<open>C39: the order-amount slot, read back as an es-AR currency amount, is the value
  parseFloat reads from the \<^verbatim>\<open>amount\<close> parameter rounded to the cent, halves away
  from zero; an amount parseFloat cannot read (NaN, replaced by \<^verbatim>\<open>|| 0\<close>) reads as
  zero, and an infinite one is shown as the infinity sign, which is no amount.\<close>

theorem amount_slot_reads_parsed:
  "read_amount 2 [36, 0xA0] (order_amount (initialize ps p)) =
     (case parse_float (param_or ps (js ''amount'') (js ''0'')) of
        Fin m e \<Rightarrow> Some (round_half_away (dec_val m e * 100))
      | NaN \<Rightarrow> Some 0
      | Inf b \<Rightarrow> None)"
proof -
  have pre: "[36, 0xA0] = currency_prefix es_AR" by (simp add: es_AR_def)
  have z: "round_half_away (dec_val 0 e * 100) = 0" for e
  proof -
    have "\<lfloor>(1::rat) / 2\<rfloor> = 0" by (rule floor_unique) simp_all
    then show ?thesis by (simp add: round_half_away_def dec_val_def)
  qed
  show ?thesis
    unfolding initialize_fields amount_number_def Let_def pre
    by (cases "parse_float (param_or ps (js ''amount'') (js ''0''))")
       (simp_all del: locale_currency.simps add: read_currency_Fin read_nonfinite z)
qed



end
