(* ===== verification/Dom.thy ===== *)
theory Dom
  imports Checkout
begin

text \<open>
  The element lookups of \<^verbatim>\<open>src/checkout_web/script.js\<close>. The theory \<open>Checkout\<close>
  runs the script on a page that has every element it looks up, as the
  specification assumes of a well-formed page; here the lookups are part of the
  model. \<^verbatim>\<open>document.getElementById\<close> and \<^verbatim>\<open>document.querySelector\<close> return
  \<^verbatim>\<open>null\<close> for an element the document lacks (\<open>dom\<close>: the ids present and whether
  an element matches \<^verbatim>\<open>.card-right\<close>), and a property write or a method call on
  \<^verbatim>\<open>null\<close> throws a TypeError. \<open>script\<close> is the function body, lines 2 to 72, with
  the writes of lines 18 to 21 (\<open>set_text\<close>), the append of line 62 and the
  \<^verbatim>\<open>addEventListener\<close> of line 68 guarded by their lookups; an exception ends
  the body with the page as it was at the throw (\<open>run\<close>, \<open>run_bind\<close>) and is
  reported as uncaught (\<open>run_end\<close>). The lookup of line 66 does not throw: the
  listener captures \<^verbatim>\<open>confirmationMsg\<close>, and when it is \<^verbatim>\<open>null\<close> the listener
  throws at its first statement, line 69, on every click (\<open>dom_handler\<close>).
\<close>

record dom =
  dom_ids :: "jstr list"
  has_card_right :: bool

definition slot_ids :: "jstr list" where
  "slot_ids = [js ''buyer-name'', js ''buyer-email'', js ''buyer-id'', js ''order-amount'']"

definition complete_dom :: "dom \<Rightarrow> bool" where
  "complete_dom d \<longleftrightarrow>
     list_all (\<lambda>i. i \<in> set (dom_ids d)) (slot_ids @ [js ''btn-confirm'', js ''confirmation-message''])
     \<and> has_card_right d"

type_synonym run = "(js_error \<times> page) + page"

definition run_bind :: "run \<Rightarrow> (page \<Rightarrow> run) \<Rightarrow> run" where
  "run_bind r f = (case r of Inl ep \<Rightarrow> Inl ep | Inr p \<Rightarrow> f p)"

definition uncaught :: "js_error \<Rightarrow> page \<Rightarrow> page" where
  "uncaught e p = p\<lparr>console := console p @ [Uncaught e]\<rparr>"

definition run_end :: "run \<Rightarrow> page" where
  "run_end r = (case r of Inl (e, p) \<Rightarrow> uncaught e p | Inr p \<Rightarrow> p)"

text \<open>\<^verbatim>\<open>document.getElementById(i).textContent = v\<close>.\<close>

definition set_text :: "dom \<Rightarrow> jstr \<Rightarrow> (page \<Rightarrow> page) \<Rightarrow> page \<Rightarrow> run" where
  "set_text d i upd p = (if i \<in> set (dom_ids d) then Inr (upd p) else Inl (TypeError, p))"

definition script :: "dom \<Rightarrow> params \<Rightarrow> page \<Rightarrow> page" where
  "script d ps p0 =
     run_end
     (let userId = param_or ps (js ''user_id'') [0x2013];
          name = param_or ps (js ''name'') (js ''Cliente'');
          email = param_or ps (js ''email'') (js ''sin-email@example.com'');
          amountRaw = param_or ps (js ''amount'') (js ''0'');
          itemsEncoded = items_param ps;
          amountFormatted = locale_currency (amount_number amountRaw)
      in run_bind (set_text d (js ''buyer-name'') (\<lambda>p. p\<lparr>buyer_name := name\<rparr>) p0) (\<lambda>p1.
         run_bind (set_text d (js ''buyer-email'') (\<lambda>p. p\<lparr>buyer_email := email\<rparr>) p1) (\<lambda>p2.
         run_bind (set_text d (js ''buyer-id'') (\<lambda>p. p\<lparr>buyer_id := userId\<rparr>) p2) (\<lambda>p3.
         run_bind (set_text d (js ''order-amount'') (\<lambda>p. p\<lparr>order_amount := amountFormatted\<rparr>) p3) (\<lambda>p4.
         (case decode_items itemsEncoded of (items, logged) \<Rightarrow>
          (let p5 = p4\<lparr>console := console p4 @ logged\<rparr> in
           case for_each_rows items of
             Inl e \<Rightarrow> Inl (e, p5)
           | Inr rows \<Rightarrow>
               if \<not> has_card_right d then Inl (TypeError, p5)
               else
                 (let p6 = p5\<lparr>card_right := card_right p5 @ [items_table rows]\<rparr> in
                  if js ''btn-confirm'' \<in> set (dom_ids d)
                  then Inr (p6\<lparr>btn_listeners := Suc (btn_listeners p6)\<rparr>)
                  else Inl (TypeError, p6)))))))))"

text \<open>The listener of lines 68 to 72 as the page holds it: with
  \<^verbatim>\<open>confirmationMsg\<close> null, line 69 throws before anything changes.\<close>

definition dom_handler :: "dom \<Rightarrow> page \<Rightarrow> page" where
  "dom_handler d p =
     (if js ''confirmation-message'' \<in> set (dom_ids d) then confirm_handler p else uncaught TypeError p)"

definition dom_dispatch :: "dom \<Rightarrow> event \<Rightarrow> page \<Rightarrow> page" where
  "dom_dispatch d ev p = (if ev = UserClick \<and> btn_disabled p then p else (dom_handler d ^^ btn_listeners p) p)"

fun dom_run :: "dom \<Rightarrow> event list \<Rightarrow> page \<Rightarrow> page" where
  "dom_run d [] p = p"
| "dom_run d (ev # evs) p = dom_run d evs (dom_dispatch d ev p)"

text \<open>A document with every element the script looks up.\<close>

definition served_dom :: dom where
  "served_dom = \<lparr>dom_ids = slot_ids @ [js ''btn-confirm'', js ''confirmation-message''], has_card_right = True\<rparr>"

subsection \<open>Lemmas\<close>

lemma run_bind_simps [simp]:
  "run_bind (Inl ep) f = Inl ep" "run_bind (Inr p) f = f p"
  by (simp_all add: run_bind_def)

lemma run_end_simps [simp]:
  "run_end (Inl (e, p)) = uncaught e p" "run_end (Inr p) = p"
  by (simp_all add: run_end_def)

lemma set_text_present [simp]: "i \<in> set (dom_ids d) \<Longrightarrow> set_text d i upd p = Inr (upd p)"
  by (simp add: set_text_def)

lemma set_text_absent [simp]: "i \<notin> set (dom_ids d) \<Longrightarrow> set_text d i upd p = Inl (TypeError, p)"
  by (simp add: set_text_def)

lemma complete_domD:
  assumes "complete_dom d"
  shows "js ''buyer-name'' \<in> set (dom_ids d)" "js ''buyer-email'' \<in> set (dom_ids d)"
    "js ''buyer-id'' \<in> set (dom_ids d)" "js ''order-amount'' \<in> set (dom_ids d)"
    "js ''btn-confirm'' \<in> set (dom_ids d)" "js ''confirmation-message'' \<in> set (dom_ids d)"
    "has_card_right d"
  using assms by (simp_all add: complete_dom_def slot_ids_def)

lemma script_complete: "complete_dom d \<Longrightarrow> script d ps p = initialize ps p"
  by (simp add: script_def initialize_def Let_def complete_domD uncaught_def
      split: prod.split sum.split)

lemma dom_handler_present:
  "js ''confirmation-message'' \<in> set (dom_ids d) \<Longrightarrow> dom_handler d = confirm_handler"
  by (simp add: dom_handler_def fun_eq_iff)

lemma dom_run_present:
  "js ''confirmation-message'' \<in> set (dom_ids d) \<Longrightarrow> dom_run d evs p = run_events evs p"
  by (induction evs arbitrary: p) (simp_all add: dom_dispatch_def dispatch_def dom_handler_present)

lemma funpow_uncaught:
  "(uncaught e ^^ n) p = p\<lparr>console := console p @ replicate n (Uncaught e)\<rparr>"
  by (induction n) (simp_all add: uncaught_def replicate_append_same [symmetric])

lemma dom_dispatch_absent:
  assumes "js ''confirmation-message'' \<notin> set (dom_ids d)" "\<not> btn_disabled p"
  shows "dom_dispatch d ev p = p\<lparr>console := console p @ replicate (btn_listeners p) (Uncaught TypeError)\<rparr>"
proof -
  have "dom_handler d = uncaught TypeError" using assms(1) by (simp add: dom_handler_def fun_eq_iff)
  then show ?thesis using assms(2) by (simp add: dom_dispatch_def funpow_uncaught)
qed

lemma missing_slot_aborts: "js ''buyer-name'' \<notin> set (dom_ids d) \<Longrightarrow> script d ps p = uncaught TypeError p"
  by (simp add: script_def Let_def)

subsection \<open>Properties of the lookups\<close>



text \<open>C17: when the four display slots exist but no element matches
  \<^verbatim>\<open>.card-right\<close>, the slots are written as on a complete page and the rows are
  rendered, but line 62 throws: no table is attached, the button gets no listener,
  and the console ends with the uncaught TypeError.\<close>

theorem container_missing_loses_table:
  assumes "list_all (\<lambda>i. i \<in> set (dom_ids d)) slot_ids" "\<not> has_card_right d"
    "decode_items (items_param ps) = (items, lg)" "for_each_rows items = Inr rows"
  shows "buyer_name (script d ps p) = buyer_name (initialize ps p)
       \<and> order_amount (script d ps p) = order_amount (initialize ps p)
       \<and> card_right (script d ps p) = card_right p
       \<and> btn_listeners (script d ps p) = btn_listeners p
       \<and> console (script d ps p) = console p @ lg @ [Uncaught TypeError]"
  using assms by (simp add: script_def initialize_def Let_def slot_ids_def uncaught_def)

theorem container_missing_loses_table_witness:
  "card_right (script \<lparr>dom_ids = slot_ids, has_card_right = False\<rparr> [] fresh_page) = []
   \<and> btn_listeners (script \<lparr>dom_ids = slot_ids, has_card_right = False\<rparr> [] fresh_page) = 0
   \<and> console (script \<lparr>dom_ids = slot_ids, has_card_right = False\<rparr> [] fresh_page) = [Uncaught TypeError]"
proof -
  have h1: "list_all (\<lambda>i. i \<in> set (dom_ids \<lparr>dom_ids = slot_ids, has_card_right = False\<rparr>)) slot_ids"
    by (simp add: list_all_iff)
  have h2: "\<not> has_card_right \<lparr>dom_ids = slot_ids, has_card_right = False\<rparr>" by simp
  have h3: "decode_items (items_param []) = (JArr [], [])" by (simp add: items_param_def param_get_def decode_items_def)
  have h4: "for_each_rows (JArr []) = Inr []" by simp
  show ?thesis using container_missing_loses_table [OF h1 h2 h3 h4, of fresh_page] by (simp add: fresh_page_def)
qed

text \<open>C25: when the document has no \<^verbatim>\<open>confirmation-message\<close>, clicks on the live
  button never confirm: the button stays enabled with its label, the message keeps
  its state, and every listener run adds an uncaught TypeError to the console.\<close>

theorem missing_message_never_confirms:
  assumes "js ''confirmation-message'' \<notin> set (dom_ids d)" "\<not> btn_disabled p"
  shows "\<not> btn_disabled (dom_run d evs p) \<and> msg_hidden (dom_run d evs p) = msg_hidden p
       \<and> btn_label (dom_run d evs p) = btn_label p
       \<and> console (dom_run d evs p) = console p @ replicate (length evs * btn_listeners p) (Uncaught TypeError)"
  using assms(2)
proof (induction evs arbitrary: p)
  case (Cons ev evs)
  show ?case using Cons.IH [of "dom_dispatch d ev p"] Cons.prems
    by (simp add: dom_dispatch_absent [OF assms(1) Cons.prems] replicate_add)
qed simp

theorem missing_message_never_confirms_witness:
  "\<not> btn_disabled (dom_run \<lparr>dom_ids = slot_ids, has_card_right = True\<rparr> [UserClick, UserClick]
        (fresh_page\<lparr>btn_listeners := 1\<rparr>))
   \<and> console (dom_run \<lparr>dom_ids = slot_ids, has_card_right = True\<rparr> [UserClick, UserClick]
        (fresh_page\<lparr>btn_listeners := 1\<rparr>)) = [Uncaught TypeError, Uncaught TypeError]"
proof -
  have h1: "js ''confirmation-message'' \<notin> set (dom_ids \<lparr>dom_ids = slot_ids, has_card_right = True\<rparr>)"
    by (simp add: slot_ids_def js_def)
  have h2: "\<not> btn_disabled (fresh_page\<lparr>btn_listeners := 1\<rparr>)" by (simp add: fresh_page_def)
  show ?thesis using missing_message_never_confirms [OF h1 h2, of "[UserClick, UserClick]"]
    by (simp add: fresh_page_def numeral_2_eq_2)
qed

end
