(* ===== verification/Spec2Isabelle.thy ===== *)
theory Spec2Isabelle
  imports Checkout Dom
begin

text \<open>
  \<^bold>\<open>A verification development of the checkout page of GoogleADK_ProyectoRetail.\<close>

  The program is one browser script, \<^verbatim>\<open>src/checkout_web/script.js\<close>, an immediately
  invoked function run once when the checkout page loads. It reads the query
  string (\<^verbatim>\<open>user_id\<close>, \<^verbatim>\<open>name\<close>, \<^verbatim>\<open>email\<close>, \<^verbatim>\<open>amount\<close>, \<^verbatim>\<open>items\<close>), writes four
  display slots, formats the amount as Argentine pesos, decodes the cart (base64url,
  then \<^verbatim>\<open>atob\<close>, then \<^verbatim>\<open>JSON.parse\<close>, inside a try/catch), appends a table with one
  row per cart item, and attaches a click listener to the confirm button. The
  parts interact in that order, inside one function: an exception that escapes
  the try/catch ends the function there.

  \<^bold>\<open>Theories.\<close>
  \<^item> \<open>Prelude\<close>: strings as lists of UTF-16 code units (\<open>jstr\<close>, \<open>cu = 16 word\<close>),
    bytes (\<open>8 word\<close>), ASCII literals (\<open>js\<close>), the runtime's exceptions
    (\<open>js_error\<close>) and the sequencing of throwing computations (\<open>throw_bind\<close>),
    the global one-character replace of line 27 (\<open>replace_all\<close>).
  \<^item> \<open>UrlParams\<close>: line 2, \<^verbatim>\<open>new URLSearchParams(window.location.search)\<close>
    (\<open>url_params\<close>): the conversion to a scalar value string (\<open>code_points\<close>),
    UTF-8 encoding, the form-urlencoded parser (\<open>split_bytes\<close>, \<open>form_entry\<close>,
    \<open>percent_decode\<close>) and the WHATWG UTF-8 decoder (\<open>utf8_dec\<close>); the
    producer's link (\<open>query_string\<close>, the \<^verbatim>\<open>quote_plus\<close> convention). Lemmas:
    the decoder inverts the encoder on scalar values, percent-decoding inverts
    \<open>quote_plus\<close>, the parser inverts the producer.
  \<^item> \<open>Base64\<close>: line 27, \<open>urlsafe_to_std\<close> (the two \<^verbatim>\<open>replace\<close> calls) and
    \<open>atob\<close>, the WHATWG forgiving-base64 decode with its 24-bit buffer
    (\<open>b64_loop\<close>), shown equal to the RFC 4648 decoding by groups of four
    (\<open>decode_quads\<close>, \<open>decode_rfc4648\<close>); the producer's encoders
    \<open>b64_encode\<close>, \<open>b64url_encode\<close>. Lemmas: the round trip, the two ways atob
    throws, the bounds on its output, and that it yields bytes, not UTF-8 text.
  \<^item> \<open>JsNumber\<close>: Number values (\<open>jsnum\<close>), the product of line 50 (\<open>num_mult\<close>),
    truthiness for \<^verbatim>\<open>|| 0\<close> (\<open>num_truthy\<close>), Number::toString
    (\<open>num_to_string\<close>) for the template of line 54. The abstraction \<open>dec_val\<close>
    maps a finite value to its rational; the normal form keeps it and the
    product refines multiplication of rationals.
  \<^item> \<open>Json\<close>: line 28, \<open>json_parse\<close> as a fuelled recursive descent; lemmas that
    each step consumes input, that the fuel given is enough, that every result
    has only finite numbers in normal form, and that parsing inverts a
    serialisation.
  \<^item> \<open>NumParse\<close>: \<^verbatim>\<open>parseFloat\<close> of line 11 (\<open>parse_float\<close>) and StringToNumber
    (\<open>string_to_number\<close>), which the product of line 50 applies to strings;
    lemmas: parseFloat of the digits of a whole number followed by any stop
    character (\<open>num_stop\<close>) is that number, and StringToNumber reads back
    every output of Number::toString.
  \<^item> \<open>Intl\<close>: \<^verbatim>\<open>toLocaleString("es-AR", ...)\<close> of lines 12 to 15 (\<open>locale_currency\<close>)
    and lines 55 and 56 (\<open>locale_number\<close>), with the CLDR data of es-AR:
    rounding half away from zero to the maximum fraction digits
    (\<open>scaled_round\<close>), trailing zeros cut to the minimum (\<open>strip_zeros\<close>),
    grouping (\<open>group_digits\<close>). Reference definitions: the positional form of
    the grouping pattern (\<open>group_ref\<close>), a reader of es-AR amounts
    (\<open>read_amount\<close>) and rounding of a rational (\<open>round_half_away\<close>).
    Lemmas: \<open>scaled_round\<close> is the floor of the value plus one half; the
    grouping equals its positional form; the currency text always has exactly
    two fraction digits and the decimal text at most three, the last not zero;
    read back, each denotes the value rounded half away from zero (to the cent,
    to the thousandth); the currency format of a whole amount is its digits,
    grouped by thousands from four digits on, then \<^verbatim>\<open>,00\<close>.
  \<^item> \<open>JsValue\<close>: the values a row touches (\<open>jval\<close>), property reads
    (\<open>get_prop\<close>) and the conversions ToString, ToNumber and toLocaleString of a
    JSON value, each with the TypeErrors the language raises.
  \<^item> \<open>Checkout\<close>: the page as a record (\<open>page\<close>), the whole script as
    \<open>initialize\<close> (lines 2 to 72, with \<open>param_or\<close>, \<open>amount_number\<close>,
    \<open>decode_items\<close>, \<open>render_item\<close>, \<open>render_all\<close>, \<open>for_each_rows\<close>,
    \<open>items_table\<close>), the page load from \<^verbatim>\<open>location.search\<close> (\<open>load_page\<close>),
    the listener of lines 68 to 72 (\<open>confirm_handler\<close>),
    click delivery (\<open>dispatch\<close>, \<open>run_events\<close>) and the button as a state
    machine (\<open>ui_step\<close>) refining the two-state machine \<open>abs_step\<close> through
    \<open>ui_abs\<close>, with invariant \<open>ui_inv\<close>; lemmas: the refinement, that
    Confirmed is terminal and stays reachable by one click (liveness), and
    that clicks never touch the rest of the page; read back, the amount slot
    is parseFloat of the parameter rounded to the cent, and the cells of a row
    are the unit price and the product, rounded to the thousandth.
  \<^item> \<open>Dom\<close>: the element lookups of lines 18 to 21, 62 and 65 to 68 on a
    document that may lack elements (\<open>dom\<close>): the body as \<open>script\<close>, each
    write or call on a lookup's result guarded (\<open>set_text\<close>), an exception
    ending the body with the page as it was at the throw (\<open>run\<close>,
    \<open>run_bind\<close>, \<open>run_end\<close>), and the listener that captured a missing
    message (\<open>dom_handler\<close>, \<open>dom_dispatch\<close>, \<open>dom_run\<close>). Lemmas: on a
    document with every element (\<open>complete_dom\<close>) the script is
    \<open>initialize\<close> and its clicks are \<open>run_events\<close>, so every property of
    \<open>Checkout\<close> holds of it; a missing slot stops the script at once, a
    missing container loses the rendered table and the listener, a missing
    message leaves a live button whose clicks only throw.
  \<^item> \<open>Spec2Isabelle\<close> (this theory): the properties that span components: the
    cart pipeline of lines 24 to 28 (Base64, Json, Checkout) and the page loaded
    from a producer's link (UrlParams, Checkout).

  \<^bold>\<open>What the properties show.\<close> A link built by the producer is read back
  exactly by line 2 (up to lone surrogates, which become U+FFFD), and malformed
  query text never throws. The slots always show the parameter or its
  default; the amount is parsed by parseFloat, which reads the longest numeric prefix
  (\<^verbatim>\<open>12px\<close> is 12), and shown in the ARS format, with two decimals, rounded
  half away from zero to the cent; the subtotal is the exact product of price
  and quantity, shown, like the unit price, with at most three decimals and none
  when the rounded value is whole (\<^verbatim>\<open>$10,5\<close>: the cells are not in the
  currency format of the amount); a cart
  that atob or JSON.parse rejects is contained (logged, empty table, button live);
  a cart that decodes to a non-array, or an item without a unit price, escapes the
  try/catch and leaves no table and a dead button; otherwise the table has one
  row per item, in order, each the template filled as the code fills it, the name
  inserted raw as markup; the button's first effective click confirms and every
  later click is idempotent, and the button never leaves Confirmed. These hold of
  the script as the browser runs it on a document with every element it looks
  up; on a document that lacks one, the script throws where it first uses it.

  \<^bold>\<open>Fuel and bounds.\<close> \<open>parse_value\<close> takes fuel; each call it makes either
  consumes input or goes from a value to its elements with the same input, so
  \<open>length s + 1\<close> units are enough (\<open>Json.parse_value_fuel_enough\<close>): running out
  of fuel is never a result of \<open>json_parse\<close>. Every other loop of the model is
  structural recursion or a \<open>fun\<close> with a termination proof.

  \<^bold>\<open>Abstractions and assumptions.\<close> Numbers are exact decimals: rounding to
  binary64, overflow of long literals to Infinity and the sign of zero are not
  modelled, so the theorems about formatting hold for the values a double
  represents exactly, which the page's amounts and prices are. The es-AR data
  (decimal comma, full-stop grouping from four digits, currency \<^verbatim>\<open>$\<close> and a
  no-break space) are those of current CLDR. The producer of the link (query
  entries and cart encoding) is not code of this repository; it is modelled
  from section 6 of the specification and serves only the round-trip theorems.

  \<^bold>\<open>Not modelled.\<close> Every line of the script is modelled; what is left out is
  the browser around it. The URL parser that produced
  \<^verbatim>\<open>window.location.search\<close> is not modelled: the search string is the input.
  The DOM is reduced to the state the script reads and writes and to which of
  the elements it looks up exist (theory \<open>Dom\<close>); the HTML parse of the markup
  assigned to \<^verbatim>\<open>innerHTML\<close> and the element tree it builds are the browser's,
  so the model keeps the assigned strings (which is what the markup-injection
  finding is about). The console keeps one entry per \<^verbatim>\<open>console.error\<close> call,
  with its two arguments, and one per uncaught exception, with the error's kind;
  the text the browser prints for them is implementation-defined and not
  modelled. Nothing else of the script is left out.
\<close>

lemma ucast_byte_cu: "unat c < 256 \<Longrightarrow> (ucast (ucast c :: byte) :: cu) = c"
  by (rule word_unat_eq_iff [THEN iffD2]) (simp add: unsigned_ucast_eq unsigned_take_bit_eq take_bit_nat_eq_self)

lemma binary_string_ascii:
  "\<forall>c \<in> set s. unat c < 256 \<Longrightarrow> binary_string (map ucast s) = s"
  by (induction s) (simp_all add: binary_string_def ucast_byte_cu)

text \<open>C7: the cart pipeline of lines 24 to 28: the producer's base64url encoding of
  the serialised cart, with every code unit below 256, decodes back to the cart
  with nothing logged.\<close>

theorem cart_pipeline_roundtrip:
  assumes "json_wf v" "\<forall>c \<in> set (json_print v). unat c < 256"
  shows "decode_items (Some (b64url_encode (map ucast (json_print v)))) = (v, [])"
proof -
  have a: "atob (urlsafe_to_std (b64url_encode (map ucast (json_print v)))) = Inr (json_print v)"
    using binary_string_ascii [OF assms(2)]
    by (simp add: atob_def urlsafe_to_std_b64url forgiving_decode_b64_encode)
  have "parse_value (Suc (length (json_print v))) (json_print v @ []) = Done v []"
    by (rule parse_print(1)) (use assms(1) in \<open>simp_all add: value_stop_def\<close>)
  then have "json_parse (json_print v) = Inr v" by (simp add: json_parse_def)
  then show ?thesis using a by (simp add: decode_items_def)
qed

theorem cart_pipeline_roundtrip_witness:
  "decode_items (Some (b64url_encode (map ucast (json_print
      (JArr [JObj [(js ''name'', JStr (js ''Widget'')), (js ''quantity'', JNum (Fin 3 0))]])))))
   = (JArr [JObj [(js ''name'', JStr (js ''Widget'')), (js ''quantity'', JNum (Fin 3 0))]], [])"
proof -
  have h1: "json_wf (JArr [JObj [(js ''name'', JStr (js ''Widget'')), (js ''quantity'', JNum (Fin 3 0))]])"
    by (simp add: normalized_def)
  have h2: "\<forall>c \<in> set (json_print
      (JArr [JObj [(js ''name'', JStr (js ''Widget'')), (js ''quantity'', JNum (Fin 3 0))]])). unat c < 256"
    by code_simp
  show ?thesis by (rule cart_pipeline_roundtrip [OF h1 h2])
qed

lemma map_usv_wf:
  "\<forall>(k, v) \<in> set ps. wf_utf16 k \<and> wf_utf16 v \<Longrightarrow> map (\<lambda>(k, v). (usv_string k, usv_string v)) ps = ps"
  by (induction ps) (auto simp: usv_string_wf)



end
